theory Spec2Isabelle
  imports Complex_Main "HOL-Library.List_Lexorder" "HOL-Library.Multiset"
begin

section \<open>Python values and exceptions\<close>

text \<open>
  The values that reach the validators of \<^verbatim>\<open>circle_plotter.py\<close>: numbers, strings,
  lists, tuples and \<^verbatim>\<open>PlotAttributes\<close> objects (with their three attributes).
  Python floats are modelled as exact reals.
\<close>

datatype pyval =
    PyNone
  | PyInt int
  | PyFloat real
  | PyStr string
  | PyList "pyval list"
  | PyTuple "pyval list"
  | PlotAttributes (color: pyval) (alpha: pyval) (label: pyval)

text \<open>
  One constructor for each exception the module can raise. The two f-string messages of
  \<^verbatim>\<open>_validate_input_data\<close> carry the interpolated value instead of the rendered text.
\<close>

datatype error =
    TypeError string
  | ValueError string
  | ValueError_column string
  | ValueError_columns "string list"
  | KeyError
  | AttributeError
  | ZeroDivisionError
  | UnboundLocalError

fun is_type_error :: "error \<Rightarrow> bool" where
  "is_type_error (TypeError m) = True"
| "is_type_error e = False"

fun is_value_error :: "error \<Rightarrow> bool" where
  "is_value_error (ValueError m) = True"
| "is_value_error (ValueError_column c) = True"
| "is_value_error (ValueError_columns cs) = True"
| "is_value_error e = False"

section \<open>PlotAttributes\<close>

text \<open>\<^verbatim>\<open>matplotlib.colors.is_color_like\<close> is a library predicate; it is a parameter here.\<close>

definition color_setter :: "(pyval \<Rightarrow> bool) \<Rightarrow> pyval \<Rightarrow> error + pyval" where
  "color_setter is_color_like v =
     (if \<not> is_color_like v then Inl (ValueError ''Must specify a valid color.'')
      else Inr v)"

text \<open>
  The chained comparison \<^verbatim>\<open>0 > value <= 1\<close> is \<^verbatim>\<open>0 > value and value <= 1\<close>.
\<close>

definition alpha_range_check :: "pyval \<Rightarrow> real \<Rightarrow> error + pyval" where
  "alpha_range_check v r =
     (if 0 > r \<and> r \<le> 1
      then Inl (ValueError ''Must specify an alpha value between 0 and 1'')
      else Inr v)"

fun alpha_setter :: "pyval \<Rightarrow> error + pyval" where
  "alpha_setter (PyFloat r) = alpha_range_check (PyFloat r) r"
| "alpha_setter (PyInt i) = alpha_range_check (PyInt i) (of_int i)"
| "alpha_setter v = Inl (TypeError ''alpha must be of type float'')"

definition PlotAttributes_init ::
  "(pyval \<Rightarrow> bool) \<Rightarrow> pyval \<Rightarrow> pyval \<Rightarrow> pyval \<Rightarrow> error + pyval" where
  "PlotAttributes_init is_color_like c a l =
     (case color_setter is_color_like c of
        Inl e \<Rightarrow> Inl e
      | Inr c' \<Rightarrow>
          (case alpha_setter a of
             Inl e \<Rightarrow> Inl e
           | Inr a' \<Rightarrow> Inr (PlotAttributes c' a' l)))"

section \<open>CirclePlotter\<close>

text \<open>
  The fields the generator reads. \<open>plot_attributes\<close> is the dictionary the attribute
  refers to, in insertion order.
\<close>

record 'k CirclePlotter =
  radius :: real
  x_init :: real
  y_init :: real
  circles_per_column :: int
  plot_attributes :: "('k \<times> pyval) list"

definition radius_setter :: "real \<Rightarrow> error + real" where
  "radius_setter v =
     (if v \<le> 0 then Inl (ValueError ''Radius must be greater than 0.'') else Inr v)"

definition x_init_setter :: "real \<Rightarrow> error + real" where
  "x_init_setter v =
     (if v < 0 then Inl (ValueError ''x_init must be greater than or equal to 0.'')
      else Inr v)"

definition y_init_setter :: "real \<Rightarrow> error + real" where
  "y_init_setter v =
     (if v < 0 then Inl (ValueError ''y_init must be greater than or equal to 0.'')
      else Inr v)"

text \<open>
  The \<^verbatim>\<open>pad\<close> property: the cache \<^verbatim>\<open>_pad\<close> is cleared by every assignment of the
  radius and filled with \<^verbatim>\<open>2 * self._radius\<close> on the next read.
\<close>

definition pad :: "'k CirclePlotter \<Rightarrow> real" where
  "pad self = 2 * radius self"

definition circle_pad :: "'k CirclePlotter \<Rightarrow> real" where
  "circle_pad self = 3 * radius self"

definition group_pad :: "'k CirclePlotter \<Rightarrow> real" where
  "group_pad self = 2 * radius self + pad self"

subsection \<open>Assigning plot\_attributes\<close>

text \<open>
  Dictionaries are objects: the caller and the plotter hold a reference to the same
  dictionary. The store maps every reference to the items of the dictionary it holds,
  in insertion order (keys are distinct).
\<close>

type_synonym ref = nat

type_synonym 'k store = "ref \<Rightarrow> ('k \<times> pyval) list"

text \<open>What is assigned to \<^verbatim>\<open>plot_attributes\<close>: a dictionary, by reference, or another value.\<close>

datatype argument = DictRef ref | NotDict pyval

text \<open>The message of the second \<^verbatim>\<open>TypeError\<close>, a string literal that runs over two lines.\<close>

definition tuple_or_list_message :: string where
  "tuple_or_list_message =
     ''plot_attributes must be of type tuple or'' @ CHR 0x0A # replicate 20 CHR '' '' @ ''list.''"

text \<open>\<^verbatim>\<open>value[group] = v\<close> for a key that is in the dictionary.\<close>

definition dict_set :: "('k \<times> pyval) list \<Rightarrow> 'k \<Rightarrow> pyval \<Rightarrow> ('k \<times> pyval) list" where
  "dict_set d k v = map (\<lambda>(k', v'). if k' = k then (k', v) else (k', v')) d"

text \<open>
  Lines 157 to 168: the loop over \<^verbatim>\<open>value.items()\<close>. The first argument is what is left to
  visit, the second the dictionary as it is now; the result is the exception raised, if
  any, and the dictionary as the loop leaves it.
\<close>

fun convert_items ::
  "(pyval \<Rightarrow> bool) \<Rightarrow> ('k \<times> pyval) list \<Rightarrow> ('k \<times> pyval) list \<Rightarrow>
     error option \<times> ('k \<times> pyval) list" where
  "convert_items is_color_like [] d = (None, d)"
| "convert_items is_color_like ((grp, PyList xs) # its) d =
     (case xs of
        [c, a, l] \<Rightarrow>
          (case PlotAttributes_init is_color_like c a l of
             Inl e \<Rightarrow> (Some e, d)
           | Inr p \<Rightarrow> convert_items is_color_like its (dict_set d grp p))
      | _ \<Rightarrow> (Some (ValueError ''plot_attributes must include color,alpha, and label.''), d))"
| "convert_items is_color_like ((grp, PyTuple xs) # its) d =
     (case xs of
        [c, a, l] \<Rightarrow>
          (case PlotAttributes_init is_color_like c a l of
             Inl e \<Rightarrow> (Some e, d)
           | Inr p \<Rightarrow> convert_items is_color_like its (dict_set d grp p))
      | _ \<Rightarrow> (Some (ValueError ''plot_attributes must include color,alpha, and label.''), d))"
| "convert_items is_color_like ((grp, attributes) # its) d =
     (Some (TypeError tuple_or_list_message), d)"

text \<open>
  The setter of \<^verbatim>\<open>plot_attributes\<close>. The state is the store and the attribute
  \<^verbatim>\<open>_plot_attributes\<close> of the plotter (a reference once it has been assigned).
\<close>

fun plot_attributes_setter ::
  "(pyval \<Rightarrow> bool) \<Rightarrow> 'k store \<times> ref option \<Rightarrow> argument \<Rightarrow>
     error option \<times> 'k store \<times> ref option" where
  "plot_attributes_setter is_color_like (s, attr) (NotDict v) =
     (Some (TypeError ''plot_attributes must of type dictionary.''), s, attr)"
| "plot_attributes_setter is_color_like (s, attr) (DictRef r) =
     (case convert_items is_color_like (s r) (s r) of
        (Some e, d) \<Rightarrow> (Some e, s(r := d), attr)
      | (None, d) \<Rightarrow> (None, s(r := d), Some r))"

text \<open>
  \<^verbatim>\<open>CirclePlotter.__init__\<close>: the setters in the order of the assignments. The result
  is the exception, if any, the store, and the plotter with the reference it holds.
\<close>

record plotter_object =
  obj_radius :: real
  obj_x_init :: real
  obj_y_init :: real
  obj_circles_per_column :: int
  obj_plot_attributes :: ref

definition CirclePlotter_init ::
  "(pyval \<Rightarrow> bool) \<Rightarrow> 'k store \<Rightarrow> argument \<Rightarrow> real \<Rightarrow> real \<Rightarrow> real \<Rightarrow> int \<Rightarrow>
     error option \<times> 'k store \<times> plotter_object option" where
  "CirclePlotter_init is_color_like s plot_attributes_arg radius_arg x_init_arg y_init_arg
       circles_per_column_arg =
     (case radius_setter radius_arg of
        Inl e \<Rightarrow> (Some e, s, None)
      | Inr rad \<Rightarrow>
          (case x_init_setter x_init_arg of
             Inl e \<Rightarrow> (Some e, s, None)
           | Inr x0 \<Rightarrow>
               (case y_init_setter y_init_arg of
                  Inl e \<Rightarrow> (Some e, s, None)
                | Inr y0 \<Rightarrow>
                    (case plot_attributes_setter is_color_like (s, None) plot_attributes_arg of
                       (None, s', Some r) \<Rightarrow>
                         (None, s',
                          Some \<lparr>obj_radius = rad, obj_x_init = x0, obj_y_init = y0,
                                obj_circles_per_column = circles_per_column_arg,
                                obj_plot_attributes = r\<rparr>)
                     | (None, s', None) \<Rightarrow> (None, s', None)
                     | (Some e, s', attr) \<Rightarrow> (Some e, s', None)))))"

text \<open>The plotter as the generator reads it: \<^verbatim>\<open>self.plot_attributes\<close> through the store.\<close>

definition plotter_in :: "'k store \<Rightarrow> plotter_object \<Rightarrow> 'k CirclePlotter" where
  "plotter_in s obj =
     \<lparr>radius = obj_radius obj, x_init = obj_x_init obj, y_init = obj_y_init obj,
      circles_per_column = obj_circles_per_column obj,
      plot_attributes = s (obj_plot_attributes obj)\<rparr>"

section \<open>The input dataset\<close>

text \<open>
  Line 258 sorts with \<^verbatim>\<open>sort_values(by=order, ascending=False)\<close> and passes no
  \<^verbatim>\<open>kind\<close>, so pandas sorts with its default \<^verbatim>\<open>kind='quicksort'\<close>, which is not a
  stable sort: the call fixes the order of rows with different keys and leaves open the
  order of rows with equal keys. What the library does with equal keys is a parameter,
  a \<open>tie_order\<close>: for the rows it is given, it ranks their positions, and rows with equal
  keys come out by increasing rank (rows of equal rank in input order).
  \<open>input_order\<close> is the tie order of a stable sort, \<open>reverse_order\<close> the one that returns
  rows with equal keys in reverse input order.
\<close>

type_synonym 'v tie_order = "'v list list \<Rightarrow> nat \<Rightarrow> nat"

definition input_order :: "'v tie_order" where
  "input_order data i = i"

definition reverse_order :: "'v tie_order" where
  "reverse_order data i = length data - i"

text \<open>
  A \<^verbatim>\<open>pandas.DataFrame\<close> is the tie order of its \<^verbatim>\<open>sort_values\<close>, its column names and
  its rows (one cell per column); anything else is \<open>NotDataFrame\<close>.
\<close>

datatype 'v input_data = DataFrame "'v tie_order" "string list" "'v list list" | NotDataFrame

fun validate_order :: "string list \<Rightarrow> string list \<Rightarrow> string list \<Rightarrow> error option" where
  "validate_order cols order [] = None"
| "validate_order cols order (v # vs) =
     (if v \<notin> set cols then Some (ValueError_columns order)
      else validate_order cols order vs)"

fun validate_input_data ::
  "'v input_data \<Rightarrow> string \<Rightarrow> string list \<Rightarrow>
     error + ('v tie_order \<times> string list \<times> 'v list list)" where
  "validate_input_data NotDataFrame grp order =
     Inl (TypeError ''input_data must be of type pandas.DataFrame.'')"
| "validate_input_data (DataFrame ties cols rws) grp order =
     (if grp \<notin> set cols then Inl (ValueError_column grp)
      else (case validate_order cols order order of
              Some e \<Rightarrow> Inl e
            | None \<Rightarrow> Inr (ties, cols, rws)))"

fun column_index :: "string list \<Rightarrow> string \<Rightarrow> nat" where
  "column_index [] c = 0"
| "column_index (d # ds) c = (if d = c then 0 else Suc (column_index ds c))"

definition cell :: "string list \<Rightarrow> 'v list \<Rightarrow> string \<Rightarrow> 'v" where
  "cell cols r c = r ! column_index cols c"

text \<open>
  \<^verbatim>\<open>groupby(group, sort=False)\<close>: the groups in order of first appearance of their
  key, each with its rows in input order.
\<close>

definition groupby :: "('r \<Rightarrow> 'k) \<Rightarrow> 'r list \<Rightarrow> ('k \<times> 'r list) list" where
  "groupby key rs =
     map (\<lambda>k. (k, filter (\<lambda>r. key r = k) rs)) (rev (remdups (rev (map key rs))))"

text \<open>The ordering key of a row: its cells in the \<open>order\<close> columns, in that order.\<close>

definition sort_key_of :: "string list \<Rightarrow> string list \<Rightarrow> 'v list \<Rightarrow> 'v list" where
  "sort_key_of cols order r = map (cell cols r) order"

text \<open>The rows by increasing rank, rows of equal rank in input order.\<close>

definition arrange :: "'v tie_order \<Rightarrow> 'v list list \<Rightarrow> 'v list list" where
  "arrange ties data = map snd (sort_key (\<lambda>p. ties data (fst p)) (enumerate 0 data))"

text \<open>
  \<^verbatim>\<open>data.sort_values(by=order, ascending=False)\<close>: the rows in descending order of their
  ordering keys, compared lexicographically; rows with equal keys in the order that the
  tie order of the DataFrame gives them.
\<close>

definition sort_values ::
  "'v tie_order \<Rightarrow> string list \<Rightarrow> string list \<Rightarrow> ('v::linorder) list list \<Rightarrow> 'v list list" where
  "sort_values ties cols order data =
     rev (sort_key (sort_key_of cols order) (rev (arrange ties data)))"

section \<open>The generator\<close>

datatype ('k, 'r) CircleAttributes =
  CircleAttributes (ca_group: 'k) (ca_count: nat) (ca_row: 'r) (ca_x: real) (ca_y: real)

datatype 'k GroupLabel =
  GroupLabel (group_label: 'k) (group_sublabel: pyval) (group_count: nat)
    (label_x: real) (label_y: real) (gridline_x: real)

datatype ('k, 'r) item = Circle "('k, 'r) CircleAttributes" | Label "'k GroupLabel"

datatype CirclePointHistory =
  CirclePointHistory (history_x: "real set") (history_y: "real set")

definition add_point :: "CirclePointHistory \<Rightarrow> real \<Rightarrow> real \<Rightarrow> CirclePointHistory" where
  "add_point h x y = CirclePointHistory (insert x (history_x h)) (insert y (history_y h))"

text \<open>
  Lines 263 to 273: the new values of \<^verbatim>\<open>x\<close> and \<^verbatim>\<open>y\<close> for the record with index
  \<open>i\<close>. \<^verbatim>\<open>y\<close> is unbound until its first assignment.
\<close>

definition advance ::
  "'k CirclePlotter \<Rightarrow> nat \<Rightarrow> real \<Rightarrow> real option \<Rightarrow> error + (real \<times> real)" where
  "advance self i x y =
     (if circles_per_column self = 0 then Inl ZeroDivisionError
      else if int i mod circles_per_column self = 0 then
        Inr (if i = 0 then x + group_pad self else x + circle_pad self, y_init self)
      else (case y of
              None \<Rightarrow> Inl UnboundLocalError
            | Some y' \<Rightarrow> Inr (x, y' + circle_pad self)))"

text \<open>Lines 287 to 294: the \<^verbatim>\<open>GroupLabel\<close> of a group, from its point history.\<close>

definition make_group_label ::
  "'k CirclePlotter \<Rightarrow> 'k \<Rightarrow> nat \<Rightarrow> CirclePointHistory \<Rightarrow> error + 'k GroupLabel" where
  "make_group_label self g n h =
     (case map_of (plot_attributes self) g of
        None \<Rightarrow> Inl KeyError
      | Some (PlotAttributes c a l) \<Rightarrow>
          Inr (GroupLabel g l n
                 (sum (\<lambda>v. v) (history_x h) / real (card (history_x h)))
                 (y_init self + circle_pad self * of_int (circles_per_column self))
                 (Max (history_x h) + group_pad self))
      | Some _ \<Rightarrow> Inl AttributeError)"

text \<open>
  The inner loop over the sorted rows of one group, from index \<open>i\<close>: the items yielded,
  and then either the exception that ended the loop or the values of \<^verbatim>\<open>x\<close>, \<^verbatim>\<open>y\<close> and
  the point history after it.
\<close>

fun row_loop ::
  "'k CirclePlotter \<Rightarrow> 'k \<Rightarrow> nat \<Rightarrow> nat \<Rightarrow> 'r list \<Rightarrow> real \<times> real option \<times> CirclePointHistory \<Rightarrow>
     ('k, 'r) item list \<times> (error + real \<times> real option \<times> CirclePointHistory)" where
  "row_loop self g n i [] st = ([], Inr st)"
| "row_loop self g n i (r # rs) (x, y, h) =
     (case advance self i x y of
        Inl e \<Rightarrow> ([], Inl e)
      | Inr (x', y') \<Rightarrow>
          (let h' = add_point h x' y';
               c = Circle (CircleAttributes g n r x' y')
           in if i + 1 = n then
                (case make_group_label self g n h' of
                   Inl e \<Rightarrow> ([c], Inl e)
                 | Inr l \<Rightarrow>
                     (case row_loop self g n (i + 1) rs (x', Some y', h') of
                        (out, res) \<Rightarrow> (c # Label l # out, res)))
              else
                (case row_loop self g n (i + 1) rs (x', Some y', h') of
                   (out, res) \<Rightarrow> (c # out, res))))"

text \<open>The outer loop over the groups.\<close>

fun group_loop ::
  "('v::linorder) CirclePlotter \<Rightarrow> 'v tie_order \<Rightarrow> string list \<Rightarrow> string list \<Rightarrow>
     ('v \<times> 'v list list) list \<Rightarrow> real \<times> real option \<Rightarrow>
     ('v, 'v list) item list \<times> (error + real \<times> real option)" where
  "group_loop self ties cols order [] st = ([], Inr st)"
| "group_loop self ties cols order ((g, data) # gs) (x, y) =
     (let x1 = (if x > x_init self then x + group_pad self else x);
          point_history = CirclePointHistory {} {};
          ordered_data = sort_values ties cols order data
      in case row_loop self g (length data) 0 ordered_data (x1, y, point_history) of
           (out, Inl e) \<Rightarrow> (out, Inl e)
         | (out, Inr (x2, y2, h2)) \<Rightarrow>
             (case group_loop self ties cols order gs (x2, y2) of
                (out', res) \<Rightarrow> (out @ out', res)))"

text \<open>
  The body of \<^verbatim>\<open>circle_generator\<close>, run to its end: the items it yields, in order, and
  the exception that ends it, if any.
\<close>

definition circle_generator_body ::
  "('v::linorder) CirclePlotter \<Rightarrow> 'v input_data \<Rightarrow> string \<Rightarrow> string list \<Rightarrow>
     ('v, 'v list) item list \<times> error option" where
  "circle_generator_body self input_data grp order =
     (case validate_input_data input_data grp order of
        Inl e \<Rightarrow> ([], Some e)
      | Inr (ties, cols, rws) \<Rightarrow>
          (case group_loop self ties cols order (groupby (\<lambda>r. cell cols r grp) rws)
                  (x_init self, None) of
             (out, Inl e) \<Rightarrow> (out, Some e)
           | (out, Inr st) \<Rightarrow> (out, None)))"

text \<open>
  \<^verbatim>\<open>circle_generator\<close> contains \<^verbatim>\<open>yield\<close>, so a call binds the arguments in a new
  generator object and runs nothing of the body. The first \<^verbatim>\<open>next\<close> starts the body;
  a generator that has raised or returned is finished.
\<close>

datatype 'v generator =
    Created "'v CirclePlotter" "'v input_data" string "string list"
  | Suspended "('v, 'v list) item list" "error option"
  | Finished

datatype 'v next_result = Yielded "('v, 'v list) item" | Raised error | StopIteration

definition circle_generator ::
  "('v::linorder) CirclePlotter \<Rightarrow> 'v input_data \<Rightarrow> string \<Rightarrow> string list \<Rightarrow> 'v generator" where
  "circle_generator self input_data grp order = Created self input_data grp order"

fun resume :: "('v, 'v list) item list \<Rightarrow> error option \<Rightarrow> 'v next_result \<times> 'v generator" where
  "resume (it # its) e = (Yielded it, Suspended its e)"
| "resume [] (Some e) = (Raised e, Finished)"
| "resume [] None = (StopIteration, Finished)"

fun next_item :: "('v::linorder) generator \<Rightarrow> 'v next_result \<times> 'v generator" where
  "next_item (Created self input_data grp order) =
     (case circle_generator_body self input_data grp order of (its, e) \<Rightarrow> resume its e)"
| "next_item (Suspended its e) = resume its e"
| "next_item Finished = (StopIteration, Finished)"

text \<open>Everything a consumer gets from a generator: the items, then how it ended.\<close>

fun drain :: "('v::linorder) generator \<Rightarrow> ('v, 'v list) item list \<times> error option" where
  "drain (Created self input_data grp order) =
     circle_generator_body self input_data grp order"
| "drain (Suspended its e) = (its, e)"
| "drain Finished = ([], None)"

text \<open>
  The items a consumer gets from \<^verbatim>\<open>circle_generator(input_data, group, order)\<close>.
\<close>

definition yielded ::
  "('v::linorder) CirclePlotter \<Rightarrow> 'v input_data \<Rightarrow> string \<Rightarrow> string list \<Rightarrow> ('v, 'v list) item list" where
  "yielded self input_data grp order = fst (drain (circle_generator self input_data grp order))"

text \<open>
  The exception that ends the iteration, if any.
\<close>

definition ended_with ::
  "('v::linorder) CirclePlotter \<Rightarrow> 'v input_data \<Rightarrow> string \<Rightarrow> string list \<Rightarrow> error option" where
  "ended_with self input_data grp order = snd (drain (circle_generator self input_data grp order))"

section \<open>Reading the results\<close>

text \<open>The placements among the items yielded, in order.\<close>

fun circles :: "('k, 'r) item list \<Rightarrow> ('k, 'r) CircleAttributes list" where
  "circles [] = []"
| "circles (Circle c # its) = c # circles its"
| "circles (Label l # its) = circles its"

text \<open>
  The yielded sequence cut after every label: each label with the placements yielded
  since the label before it, and the placements after the last label.
\<close>

fun split_items ::
  "('k, 'r) item list \<Rightarrow>
     (('k, 'r) CircleAttributes list \<times> 'k GroupLabel) list \<times> ('k, 'r) CircleAttributes list" where
  "split_items [] = ([], [])"
| "split_items (Label l # its) =
     (case split_items its of (chs, rest) \<Rightarrow> (([], l) # chs, rest))"
| "split_items (Circle c # its) =
     (case split_items its of
        ([], rest) \<Rightarrow> ([], c # rest)
      | ((cs, l) # chs, rest) \<Rightarrow> ((c # cs, l) # chs, rest))"

text \<open>
  The index of every placement within its group: a placement whose group differs from
  that of the placement before it (and the very first one) has index 0, every other one
  has the index of the placement before it plus one. \<open>index_from g i\<close> numbers a sequence
  that follows a placement of group \<open>g\<close> with index \<open>i - 1\<close>.
\<close>

fun index_from ::
  "'k \<Rightarrow> nat \<Rightarrow> ('k, 'r) CircleAttributes list \<Rightarrow> (nat \<times> ('k, 'r) CircleAttributes) list" where
  "index_from g i [] = []"
| "index_from g i (c # cs) =
     (if ca_group c = g then (i, c) # index_from g (Suc i) cs
      else (0, c) # index_from (ca_group c) 1 cs)"

fun indexed :: "('k, 'r) CircleAttributes list \<Rightarrow> (nat \<times> ('k, 'r) CircleAttributes) list" where
  "indexed [] = []"
| "indexed (c # cs) = index_from (ca_group c) 0 (c # cs)"

text \<open>A group whose entry in \<^verbatim>\<open>plot_attributes\<close> is a \<^verbatim>\<open>PlotAttributes\<close> object.\<close>

definition styled :: "'k CirclePlotter \<Rightarrow> 'k \<Rightarrow> bool" where
  "styled self g =
     (case map_of (plot_attributes self) g of
        Some (PlotAttributes c a l) \<Rightarrow> True
      | _ \<Rightarrow> False)"

text \<open>An entry before the assignment and the same entry after it.\<close>

definition replaced :: "'k \<times> pyval \<Rightarrow> 'k \<times> pyval \<Rightarrow> bool" where
  "replaced old new =
     (fst new = fst old \<and>
      (\<exists>c a l. (snd old = PyList [c, a, l] \<or> snd old = PyTuple [c, a, l]) \<and>
               snd new = PlotAttributes c a l))"

section \<open>Auxiliary functions\<close>

text \<open>
  The placements of the inner loop alone: \<open>row_loop\<close> without the labels, the point
  history and the exception (lemma \<open>row_loop_shape\<close> relates the two).
\<close>

fun place ::
  "'k CirclePlotter \<Rightarrow> 'k \<Rightarrow> nat \<Rightarrow> nat \<Rightarrow> 'r list \<Rightarrow> real \<Rightarrow> real option \<Rightarrow>
     ('k, 'r) CircleAttributes list" where
  "place self g n i [] x y = []"
| "place self g n i (r # rs) x y =
     (case advance self i x y of
        Inl e \<Rightarrow> []
      | Inr (x', y') \<Rightarrow> CircleAttributes g n r x' y' # place self g n (Suc i) rs x' (Some y'))"

text \<open>The point history once the given placements have been added to it.\<close>

definition history_after ::
  "CirclePointHistory \<Rightarrow> ('k, 'r) CircleAttributes list \<Rightarrow> CirclePointHistory" where
  "history_after h ps =
     CirclePointHistory (history_x h \<union> ca_x ` set ps) (history_y h \<union> ca_y ` set ps)"

text \<open>
  What lines 263 to 267 do to \<^verbatim>\<open>x\<close> between a placement \<open>p\<close> and the next one \<open>q\<close>
  (each with its index): a placement that starts a column is further right, any other
  keeps \<^verbatim>\<open>x\<close>.
\<close>

definition x_rule ::
  "'k CirclePlotter \<Rightarrow> nat \<times> ('k, 'r) CircleAttributes \<Rightarrow> nat \<times> ('k, 'r) CircleAttributes \<Rightarrow> bool" where
  "x_rule self p q =
     (if int (fst q) mod circles_per_column self = 0 then ca_x (snd p) < ca_x (snd q)
      else ca_x (snd q) = ca_x (snd p))"

text \<open>
  What lines 263 to 273 do to \<^verbatim>\<open>y\<close>: a placement that starts a column is at
  \<^verbatim>\<open>y_init\<close>, any other is \<^verbatim>\<open>3 * radius\<close> above the placement before it.
\<close>

definition y_rule ::
  "'k CirclePlotter \<Rightarrow> nat \<times> ('k, 'r) CircleAttributes \<Rightarrow> nat \<times> ('k, 'r) CircleAttributes \<Rightarrow> bool" where
  "y_rule self p q =
     (if int (fst q) mod circles_per_column self = 0 then ca_y (snd q) = y_init self
      else ca_y (snd q) = ca_y (snd p) + 3 * radius self)"

section \<open>Example inputs\<close>

text \<open>
  A plotter and a dataset of five records in two groups, used to run the generator on
  a concrete input. No two records of a group have the same ordering key.
\<close>

definition example_plotter :: "int CirclePlotter" where
  "example_plotter =
     \<lparr>radius = 1 / 5, x_init = 0, y_init = 1, circles_per_column = 2,
      plot_attributes =
        [(7, PlotAttributes (PyStr ''red'') (PyFloat 1) (PyStr ''seven'')),
         (8, PlotAttributes (PyStr ''blue'') (PyFloat (1 / 2)) (PyStr ''eight''))]\<rparr>"

definition example_cols :: "string list" where
  "example_cols = [''g'', ''o'', ''id'']"

definition example_rows :: "int list list" where
  "example_rows = [[7, 1, 0], [8, 3, 1], [7, 2, 2], [7, 3, 3], [8, 1, 4]]"

definition example_data :: "int input_data" where
  "example_data = DataFrame reverse_order example_cols example_rows"

text \<open>
  A dataset of one group whose records share their ordering keys in pairs, in a DataFrame
  that returns rows with equal keys in reverse input order.
\<close>

definition tied_rows :: "int list list" where
  "tied_rows = [[7, 0, 0], [7, 0, 1], [7, 1, 2], [7, 1, 3]]"

definition tied_data :: "int input_data" where
  "tied_data = DataFrame reverse_order example_cols tied_rows"

text \<open>
  A store with one dictionary of two entries, at reference 0.
\<close>

definition example_store :: "int store" where
  "example_store =
     (\<lambda>r. [])(0 := [(7, PyTuple [PyStr ''red'', PyFloat 1, PyStr ''seven'']),
                     (8, PyList [PyStr ''blue'', PyFloat (1 / 2), PyStr ''eight''])])"

section \<open>The opacity check\<close>

lemma alpha_setter_float:
  "alpha_setter (PyFloat r) =
     (if r < 0 then Inl (ValueError ''Must specify an alpha value between 0 and 1'')
      else Inr (PyFloat r))"
  by (auto simp: alpha_range_check_def)

text \<open>
  Claim C1 (the alpha setter accepts 1.0, rejects 0.0 and rejects every number outside the
  interval from 0, exclusive, to 1, inclusive). The setter as written accepts 1.0, and
  also 0.0, 2.0 and 5; it raises its value error for negative numbers only.
\<close>

theorem alpha_setter_boundaries:
  "alpha_setter (PyFloat 1) = Inr (PyFloat 1) \<and>
   alpha_setter (PyFloat 0) = Inr (PyFloat 0) \<and>
   alpha_setter (PyFloat 2) = Inr (PyFloat 2) \<and>
   alpha_setter (PyInt 5) = Inr (PyInt 5) \<and>
   alpha_setter (PyFloat (- 1)) = Inl (ValueError ''Must specify an alpha value between 0 and 1'')"
  by (simp add: alpha_range_check_def)

section \<open>Validation of the input\<close>

lemma validate_order_None_iff: "validate_order cols order vs = None \<longleftrightarrow> set vs \<subseteq> set cols"
  by (induction vs) auto

lemma validate_order_Some: "validate_order cols order vs = Some e \<Longrightarrow> e = ValueError_columns order"
  by (induction vs) (auto split: if_splits)

lemma validate_input_data_Inr_iff:
  "validate_input_data input grp order = Inr (ties, cols, rws) \<longleftrightarrow>
     input = DataFrame ties cols rws \<and> grp \<in> set cols \<and> set order \<subseteq> set cols"
proof (cases input)
  case NotDataFrame
  then show ?thesis by simp
next
  case (DataFrame ties' cols' rws')
  show ?thesis
  proof (cases "validate_order cols' order order")
    case None
    with DataFrame show ?thesis
      using validate_order_None_iff [of cols' order order] by auto
  next
    case (Some e)
    with DataFrame show ?thesis
      using validate_order_None_iff [of cols' order order] by auto
  qed
qed

lemma validate_input_data_Inl:
  assumes "input = NotDataFrame \<or>
     (\<exists>ties cols rws. input = DataFrame ties cols rws \<and> (grp \<notin> set cols \<or> \<not> set order \<subseteq> set cols))"
  shows "\<exists>e. validate_input_data input grp order = Inl e \<and> (is_type_error e \<or> is_value_error e)"
proof (cases input)
  case NotDataFrame
  then show ?thesis by simp
next
  case (DataFrame ties cols rws)
  with assms have bad: "grp \<notin> set cols \<or> \<not> set order \<subseteq> set cols" by auto
  show ?thesis
  proof (cases "grp \<in> set cols")
    case False
    with DataFrame show ?thesis by simp
  next
    case True
    with bad have "validate_order cols order order \<noteq> None"
      by (simp add: validate_order_None_iff)
    then obtain e where e: "validate_order cols order order = Some e" by auto
    then have "e = ValueError_columns order" by (rule validate_order_Some)
    with e True DataFrame show ?thesis by simp
  qed
qed

text \<open>
  Claim C8. When the dataset is not a DataFrame, or the group column or one of the order
  columns is missing from its columns, everything a consumer gets from the generator is
  a type or value error, with no item before it.
\<close>

theorem validation_error_no_output:
  assumes "input = NotDataFrame \<or>
     (\<exists>ties cols rws. input = DataFrame ties cols rws \<and> (grp \<notin> set cols \<or> \<not> set order \<subseteq> set cols))"
  shows "\<exists>e. drain (circle_generator self input grp order) = ([], Some e) \<and>
            (is_type_error e \<or> is_value_error e)"
proof -
  from validate_input_data_Inl [OF assms] obtain e where
    "validate_input_data input grp order = Inl e" "is_type_error e \<or> is_value_error e"
    by blast
  then show ?thesis
    by (simp add: circle_generator_def circle_generator_body_def)
qed

theorem validation_error_no_output_witness:
  "\<exists>e. drain (circle_generator
            \<lparr>radius = 1 / 5, x_init = 0, y_init = 1, circles_per_column = 10,
             plot_attributes = [(7 :: int, PlotAttributes (PyStr ''red'') (PyFloat 1) (PyStr ''seven''))]\<rparr>
            (DataFrame reverse_order [''g'', ''o''] [[7, 1], [7, 3]]) ''g'' [''o'', ''p'']) = ([], Some e) \<and>
        (is_type_error e \<or> is_value_error e)"
  using validation_error_no_output [of "DataFrame reverse_order [''g'', ''o''] [[7, 1], [7, 3]]" "''g''" "[''o'', ''p'']"]
  by simp

text \<open>
  Claim C10. When the dataset is not a DataFrame, or the group column or one of the order
  columns is missing from its columns, the call itself only creates the generator object
  (nothing of the body has run), and the first request for an element raises the type or
  value error of the validation and finishes the generator.
\<close>

theorem validation_deferred_to_first_next:
  assumes "input = NotDataFrame \<or>
     (\<exists>ties cols rws. input = DataFrame ties cols rws \<and> (grp \<notin> set cols \<or> \<not> set order \<subseteq> set cols))"
  shows "circle_generator self input grp order = Created self input grp order \<and>
         (\<exists>e. next_item (circle_generator self input grp order) = (Raised e, Finished) \<and>
            (is_type_error e \<or> is_value_error e))"
proof -
  from validate_input_data_Inl [OF assms] obtain e where
    "validate_input_data input grp order = Inl e" "is_type_error e \<or> is_value_error e"
    by blast
  then show ?thesis
    by (simp add: circle_generator_def circle_generator_body_def)
qed

theorem validation_deferred_to_first_next_witness:
  "circle_generator
      \<lparr>radius = 1 / 5, x_init = 0, y_init = 1, circles_per_column = 10,
       plot_attributes = [(7 :: int, PlotAttributes (PyStr ''red'') (PyFloat 1) (PyStr ''seven''))]\<rparr>
      NotDataFrame ''g'' [''o'']
     = Created \<lparr>radius = 1 / 5, x_init = 0, y_init = 1, circles_per_column = 10,
       plot_attributes = [(7 :: int, PlotAttributes (PyStr ''red'') (PyFloat 1) (PyStr ''seven''))]\<rparr>
      NotDataFrame ''g'' [''o''] \<and>
   (\<exists>e. next_item (circle_generator
      \<lparr>radius = 1 / 5, x_init = 0, y_init = 1, circles_per_column = 10,
       plot_attributes = [(7 :: int, PlotAttributes (PyStr ''red'') (PyFloat 1) (PyStr ''seven''))]\<rparr>
      NotDataFrame ''g'' [''o'']) = (Raised e, Finished) \<and>
        (is_type_error e \<or> is_value_error e))"
  using validation_deferred_to_first_next [of NotDataFrame]
  by simp

section \<open>The example run\<close>

lemma example_yielded:
  "yielded example_plotter example_data ''g'' [''o''] =
     [Circle (CircleAttributes 7 3 [7, 3, 3] (4 / 5) 1),
      Circle (CircleAttributes 7 3 [7, 2, 2] (4 / 5) (8 / 5)),
      Circle (CircleAttributes 7 3 [7, 1, 0] (7 / 5) 1),
      Label (GroupLabel 7 (PyStr ''seven'') 3 (11 / 10) (11 / 5) (11 / 5)),
      Circle (CircleAttributes 8 2 [8, 3, 1] 3 1),
      Circle (CircleAttributes 8 2 [8, 1, 4] 3 (8 / 5)),
      Label (GroupLabel 8 (PyStr ''eight'') 2 3 (11 / 5) (19 / 5))]"
  by (simp add: yielded_def example_plotter_def example_data_def example_cols_def
      example_rows_def circle_generator_def
      circle_generator_body_def groupby_def cell_def sort_values_def arrange_def reverse_order_def sort_key_of_def advance_def
      make_group_label_def add_point_def group_pad_def circle_pad_def pad_def)

lemma example_plotter_fields:
  "radius example_plotter = 1 / 5" "x_init example_plotter = 0" "y_init example_plotter = 1"
  "circles_per_column example_plotter = 2"
  by (simp_all add: example_plotter_def)

lemma example_ended_with: "ended_with example_plotter example_data ''g'' [''o''] = None"
  by (simp add: ended_with_def example_plotter_def example_data_def example_cols_def
      example_rows_def circle_generator_def
      circle_generator_body_def groupby_def cell_def sort_values_def arrange_def reverse_order_def sort_key_of_def advance_def
      make_group_label_def add_point_def group_pad_def circle_pad_def pad_def)

lemma example_hypotheses:
  "circles_per_column example_plotter \<noteq> 0"
  "''g'' \<in> set example_cols"
  "set [''o''] \<subseteq> set example_cols"
  "\<forall>r\<in>set example_rows. styled example_plotter (cell example_cols r ''g'')"
  by (simp_all add: example_plotter_def example_cols_def example_rows_def styled_def cell_def)

lemma example_chunks:
  "fst (split_items (yielded example_plotter example_data ''g'' [''o''])) =
     [([CircleAttributes 7 3 [7, 3, 3] (4 / 5) 1,
        CircleAttributes 7 3 [7, 2, 2] (4 / 5) (8 / 5),
        CircleAttributes 7 3 [7, 1, 0] (7 / 5) 1],
       GroupLabel 7 (PyStr ''seven'') 3 (11 / 10) (11 / 5) (11 / 5)),
      ([CircleAttributes 8 2 [8, 3, 1] 3 1,
        CircleAttributes 8 2 [8, 1, 4] 3 (8 / 5)],
       GroupLabel 8 (PyStr ''eight'') 2 3 (11 / 5) (19 / 5))]"
  by (simp add: example_yielded)

lemma tied_yielded:
  "yielded example_plotter tied_data ''g'' [''o''] =
     [Circle (CircleAttributes 7 4 [7, 1, 3] (4 / 5) 1),
      Circle (CircleAttributes 7 4 [7, 1, 2] (4 / 5) (8 / 5)),
      Circle (CircleAttributes 7 4 [7, 0, 1] (7 / 5) 1),
      Circle (CircleAttributes 7 4 [7, 0, 0] (7 / 5) (8 / 5)),
      Label (GroupLabel 7 (PyStr ''seven'') 4 (11 / 10) (11 / 5) (11 / 5))]"
  by (simp add: yielded_def example_plotter_def tied_data_def example_cols_def
      tied_rows_def circle_generator_def
      circle_generator_body_def groupby_def cell_def sort_values_def arrange_def reverse_order_def
      sort_key_of_def advance_def
      make_group_label_def add_point_def group_pad_def circle_pad_def pad_def)

lemma tied_hypotheses:
  "circles_per_column example_plotter \<noteq> 0"
  "''g'' \<in> set example_cols"
  "set [''o''] \<subseteq> set example_cols"
  "\<forall>r\<in>set tied_rows. styled example_plotter (cell example_cols r ''g'')"
  by (simp_all add: example_plotter_def example_cols_def tied_rows_def styled_def cell_def)

lemma tied_chunks:
  "fst (split_items (yielded example_plotter tied_data ''g'' [''o''])) =
     [([CircleAttributes 7 4 [7, 1, 3] (4 / 5) 1,
        CircleAttributes 7 4 [7, 1, 2] (4 / 5) (8 / 5),
        CircleAttributes 7 4 [7, 0, 1] (7 / 5) 1,
        CircleAttributes 7 4 [7, 0, 0] (7 / 5) (8 / 5)],
       GroupLabel 7 (PyStr ''seven'') 4 (11 / 10) (11 / 5) (11 / 5))]"
  by (simp add: tied_yielded)

lemma example_setter:
  "plot_attributes_setter (\<lambda>v. True) (example_store, None) (DictRef 0) =
     (None,
      example_store(0 := [(7, PlotAttributes (PyStr ''red'') (PyFloat 1) (PyStr ''seven'')),
                          (8, PlotAttributes (PyStr ''blue'') (PyFloat (1 / 2)) (PyStr ''eight''))]),
      Some 0)"
  by (simp add: example_store_def PlotAttributes_init_def color_setter_def alpha_range_check_def
      dict_set_def)

section \<open>Lists\<close>

lemma successively_tl_ex:
  "successively P xs \<Longrightarrow> q \<in> set (tl xs) \<Longrightarrow> \<exists>p. P p q"
  by (induction P xs rule: successively.induct) auto

lemma successively_conj:
  "successively P xs \<Longrightarrow> successively Q xs \<Longrightarrow> successively (\<lambda>a b. P a b \<and> Q a b) xs"
  by (induction P xs rule: successively.induct) auto

lemma successively_mono_mem:
  assumes "successively P xs"
    and "\<And>a b. a \<in> set xs \<Longrightarrow> b \<in> set xs \<Longrightarrow> P a b \<Longrightarrow> Q a b"
  shows "successively Q xs"
  using assms by (induction P xs rule: successively.induct) auto

lemma in_notin_neq: "a \<in> S \<Longrightarrow> g \<notin> S \<Longrightarrow> a \<noteq> g"
  by auto

lemma remdups_const: "set xs = {g} \<Longrightarrow> remdups xs = [g]"
proof (induction xs)
  case Nil
  then show ?case by simp
next
  case (Cons x xs)
  then have x: "x = g" and sub: "set xs \<subseteq> {g}" by auto
  show ?case
  proof (cases "xs = []")
    case True
    with x show ?thesis by simp
  next
    case False
    with sub have "set xs = {g}" by (cases xs) auto
    with Cons.IH x show ?thesis by simp
  qed
qed

lemma circles_append: "circles (xs @ ys) = circles xs @ circles ys"
  by (induction xs rule: circles.induct) simp_all

lemma circles_map_Circle: "circles (map Circle cs) = cs"
  by (induction cs) simp_all

lemma split_items_circles: "split_items (map Circle cs) = ([], cs)"
  by (induction cs) simp_all

lemma split_items_chunk:
  "split_items (map Circle cs @ Label l # its) =
     ((cs, l) # fst (split_items its), snd (split_items its))"
  by (induction cs) (simp_all split: prod.splits)

lemma split_items_concat:
  "its = concat (map (\<lambda>ch. map Circle (fst ch) @ [Label (snd ch)]) (fst (split_items its))) @
         map Circle (snd (split_items its))"
  by (induction its rule: split_items.induct) (auto split: prod.splits list.splits)

lemma map_snd_index_from: "map snd (index_from g i cs) = cs"
  by (induction cs arbitrary: g i) simp_all

lemma map_snd_indexed: "map snd (indexed cs) = cs"
  by (cases cs) (simp_all add: map_snd_index_from)

lemma index_from_Nil_iff: "index_from g i cs = [] \<longleftrightarrow> cs = []"
  by (cases cs) simp_all

lemma indexed_Nil_iff: "indexed cs = [] \<longleftrightarrow> cs = []"
  by (cases cs) simp_all

lemma hd_indexed: "cs \<noteq> [] \<Longrightarrow> hd (indexed cs) = (0, hd cs)"
  by (cases cs) simp_all

lemma snd_last_index_from: "cs \<noteq> [] \<Longrightarrow> snd (last (index_from g i cs)) = last cs"
  using map_snd_index_from [of g i cs] index_from_Nil_iff [of g i cs]
  by (metis last_map)

lemma index_from_append:
  assumes "\<forall>c\<in>set cs. ca_group c = g" and "ds = [] \<or> ca_group (hd ds) \<noteq> g"
  shows "index_from g i (cs @ ds) = index_from g i cs @ indexed ds"
  using assms
proof (induction cs arbitrary: i)
  case Nil
  then show ?case by (cases ds) auto
next
  case (Cons c cs)
  then show ?case by simp
qed

lemma indexed_append:
  assumes "cs \<noteq> []" and "\<forall>c\<in>set cs. ca_group c = g" and "ds = [] \<or> ca_group (hd ds) \<noteq> g"
  shows "indexed (cs @ ds) = index_from g 0 cs @ indexed ds"
proof -
  from assms(1) obtain c cs' where cs: "cs = c # cs'" by (cases cs) auto
  with assms(2) have "ca_group c = g" by simp
  then have "indexed (cs @ ds) = index_from g 0 (cs @ ds)"
    by (simp add: cs)
  with index_from_append [OF assms(2,3)] show ?thesis by simp
qed

lemma indexed_same_group:
  assumes "\<forall>c\<in>set cs. ca_group c = g"
  shows "indexed cs = index_from g 0 cs"
  using assms by (cases cs) simp_all

lemma index_from_uniform:
  assumes "\<forall>c\<in>set cs. ca_group c = g"
  shows "index_from g i cs = zip [i..<i + length cs] cs"
  using assms
proof (induction cs arbitrary: i)
  case Nil
  then show ?case by simp
next
  case (Cons c cs)
  then have IH: "index_from g (Suc i) cs = zip [Suc i..<Suc i + length cs] cs" by simp
  have "i < i + length (c # cs)" by simp
  then have "[i..<i + length (c # cs)] = i # [Suc i..<i + length (c # cs)]"
    by (rule upt_conv_Cons)
  moreover have "i + length (c # cs) = Suc i + length cs" by simp
  ultimately have eq: "[i..<i + length (c # cs)] = i # [Suc i..<Suc i + length cs]"
    by (simp only:)
  have "index_from g i (c # cs) = (i, c) # index_from g (Suc i) cs"
    using Cons.prems by simp
  also have "\<dots> = (i, c) # zip [Suc i..<Suc i + length cs] cs"
    by (simp only: IH)
  also have "\<dots> = zip (i # [Suc i..<Suc i + length cs]) (c # cs)"
    by simp
  also have "\<dots> = zip [i..<i + length (c # cs)] (c # cs)"
    by (simp only: eq)
  finally show ?case .
qed

lemma index_from_steps:
  "successively (\<lambda>p q. fst q \<noteq> 0 \<longrightarrow> fst q = Suc (fst p) \<and> ca_group (snd q) = ca_group (snd p))
     (index_from g i cs) \<and>
   (\<forall>c ds. cs = c # ds \<longrightarrow> hd (index_from g i cs) = (if ca_group c = g then i else 0, c))"
proof (induction cs arbitrary: g i)
  case Nil
  then show ?case by simp
next
  case (Cons c cs)
  show ?case
  proof (cases cs)
    case Nil
    then show ?thesis by simp
  next
    case (Cons d ds)
    with Cons.IH [of g "Suc i"] Cons.IH [of "ca_group c" 1] show ?thesis
      by (auto simp: successively_Cons)
  qed
qed

lemma indexed_steps:
  "successively (\<lambda>p q. fst q \<noteq> 0 \<longrightarrow> fst q = Suc (fst p) \<and> ca_group (snd q) = ca_group (snd p))
     (indexed cs)"
proof (cases cs)
  case Nil
  then show ?thesis by simp
next
  case (Cons c ds)
  then have "indexed cs = index_from (ca_group c) 0 cs"
    by (simp only: indexed.simps)
  with index_from_steps [of "ca_group c" 0 cs] show ?thesis
    by (simp only:)
qed

lemma index_from_counts_up:
  assumes "\<forall>c\<in>set cs. ca_group c = g"
  shows "successively (\<lambda>p q. fst q = Suc (fst p)) (index_from g i cs)"
  using assms
proof (induction cs arbitrary: i)
  case Nil
  then show ?case by simp
next
  case (Cons c cs)
  then show ?case
    by (cases cs) (simp_all add: successively_Cons)
qed

section \<open>Grouping and sorting\<close>

lemma groupby_single:
  assumes "rs \<noteq> []" "\<forall>r\<in>set rs. key r = g"
  shows "groupby key rs = [(g, rs)]"
proof -
  have "set (rev (map key rs)) = {g}"
    using assms by (cases rs) auto
  then have "remdups (rev (map key rs)) = [g]"
    by (rule remdups_const)
  moreover have "filter (\<lambda>r. key r = g) rs = rs"
    using assms(2) by simp
  ultimately show ?thesis
    by (simp add: groupby_def)
qed

lemma groupby_nonempty: "(g, data) \<in> set (groupby key rs) \<Longrightarrow> data \<noteq> []"
  by (auto simp: groupby_def filter_empty_conv)

lemma groupby_distinct: "distinct (map fst (groupby key rs))"
  by (simp add: groupby_def comp_def)

lemma groupby_keys: "fst ` set (groupby key rs) = key ` set rs"
  by (force simp: groupby_def)

lemma groupby_data: "(g, data) \<in> set (groupby key rs) \<Longrightarrow> data = filter (\<lambda>r. key r = g) rs"
  by (auto simp: groupby_def)

lemma length_arrange: "length (arrange ties data) = length data"
  by (simp add: arrange_def)

lemma mset_arrange: "mset (arrange ties data) = mset data"
proof -
  have "mset (arrange ties data) =
        image_mset snd (mset (sort_key (\<lambda>p. ties data (fst p)) (enumerate 0 data)))"
    by (simp add: arrange_def)
  also have "\<dots> = image_mset snd (mset (enumerate 0 data))"
    by (simp only: mset_sort)
  also have "\<dots> = mset (map snd (enumerate 0 data))"
    by (simp only: mset_map)
  also have "\<dots> = mset data"
    by (simp only: map_snd_enumerate)
  finally show ?thesis .
qed

lemma arrange_input_order: "arrange input_order data = data"
proof -
  have "sorted (map fst (enumerate 0 data))"
    by simp
  then have "sort_key fst (enumerate 0 data) = enumerate 0 data"
    by (rule sort_key_id_if_sorted)
  then show ?thesis
    by (simp add: arrange_def input_order_def)
qed

lemma length_sort_values: "length (sort_values ties cols order data) = length data"
  by (simp add: sort_values_def length_arrange)

lemma mset_sort_values: "mset (sort_values ties cols order data) = mset data"
  by (simp add: sort_values_def mset_arrange)

lemma sort_values_descending:
  "sorted (rev (map (sort_key_of cols order) (sort_values ties cols order data)))"
  by (simp add: sort_values_def rev_map [symmetric])

lemma sort_values_ties:
  "filter (\<lambda>r. sort_key_of cols order r = k) (sort_values ties cols order data) =
   filter (\<lambda>r. sort_key_of cols order r = k) (arrange ties data)"
proof -
  have "filter (\<lambda>r. sort_key_of cols order r = k) (sort_values ties cols order data) =
        rev (filter (\<lambda>r. sort_key_of cols order r = k)
               (sort_key (sort_key_of cols order) (rev (arrange ties data))))"
    by (simp add: sort_values_def rev_filter)
  also have "\<dots> = rev (filter (\<lambda>r. sort_key_of cols order r = k) (rev (arrange ties data)))"
    by (simp only: sort_key_stable)
  also have "\<dots> = filter (\<lambda>r. sort_key_of cols order r = k) (arrange ties data)"
    by (simp add: rev_filter)
  finally show ?thesis .
qed

lemma sort_values_input_order:
  "filter (\<lambda>r. sort_key_of cols order r = k) (sort_values input_order cols order data) =
   filter (\<lambda>r. sort_key_of cols order r = k) data"
  by (simp only: sort_values_ties arrange_input_order)

section \<open>The inner loop\<close>

lemma history_after_Nil: "history_after h [] = h"
  by (simp add: history_after_def)

lemma history_after_Cons:
  "history_after (add_point h (ca_x c) (ca_y c)) ps = history_after h (c # ps)"
  by (simp add: history_after_def add_point_def)

lemma history_x_after_empty:
  "history_x (history_after (CirclePointHistory {} {}) cs) = ca_x ` set cs"
  by (simp add: history_after_def)

lemma place_group: "c \<in> set (place self g n i rs x y) \<Longrightarrow> ca_group c = g \<and> ca_count c = n"
  by (induction rs arbitrary: i x y) (auto split: sum.splits)

lemma place_length_le: "length (place self g n i rs x y) \<le> length rs"
  by (induction rs arbitrary: i x y) (auto split: sum.splits)

lemma place_rows:
  "map ca_row (place self g n i rs x y) = take (length (place self g n i rs x y)) rs"
  by (induction rs arbitrary: i x y) (auto split: sum.splits)

lemma place_rows_full:
  assumes "length (place self g n i rs x y) = length rs"
  shows "map ca_row (place self g n i rs x y) = rs"
  using place_rows [of self g n i rs x y] assms by simp

lemma advance_Some_next:
  "advance self i x y = Inr (x', y') \<Longrightarrow> \<exists>p. advance self (Suc i) x' (Some y') = Inr p"
  by (auto simp: advance_def split: if_splits)

lemma advance_ok:
  assumes "circles_per_column self \<noteq> 0" and "int i mod circles_per_column self = 0 \<or> y \<noteq> None"
  shows "\<exists>p. advance self i x y = Inr p"
  using assms by (auto simp: advance_def)

lemma advance_x:
  assumes "0 < radius self" and "advance self i x y = Inr (x', y')"
  shows "if int i mod circles_per_column self = 0 then x < x' else x' = x"
  using assms
  by (auto simp: advance_def group_pad_def circle_pad_def pad_def split: if_splits option.splits)

lemma advance_y:
  assumes "advance self i x y = Inr (x', y')"
  shows "if int i mod circles_per_column self = 0 then y' = y_init self
         else \<exists>y0. y = Some y0 \<and> y' = y0 + 3 * radius self"
  using assms
  by (auto simp: advance_def circle_pad_def split: if_splits option.splits)

lemma place_length:
  "advance self i x y = Inr p \<Longrightarrow> length (place self g n i rs x y) = length rs"
proof (induction rs arbitrary: i x y p)
  case Nil
  then show ?case by simp
next
  case (Cons r rs)
  obtain x' y' where p: "p = (x', y')" by (cases p)
  from Cons.prems p obtain q where "advance self (Suc i) x' (Some y') = Inr q"
    using advance_Some_next by blast
  from Cons.IH [OF this] Cons.prems p show ?case by simp
qed

lemma place_Cons:
  assumes "place self g n i rs x y = c # ps"
  shows "\<exists>r rs'. rs = r # rs' \<and> advance self i x y = Inr (ca_x c, ca_y c) \<and> ca_group c = g \<and>
           ps = place self g n (Suc i) rs' (ca_x c) (Some (ca_y c))"
  using assms by (cases rs) (auto split: sum.splits)

lemma place_x_rule:
  assumes "0 < radius self"
  shows "successively (x_rule self) (index_from g i (place self g n i rs x y))"
proof (induction rs arbitrary: i x y)
  case Nil
  then show ?case by simp
next
  case (Cons r rs)
  show ?case
  proof (cases "advance self i x y")
    case (Inl e)
    then show ?thesis by simp
  next
    case (Inr p)
    obtain x' y' where p: "p = (x', y')" by (cases p)
    let ?ps = "place self g n (Suc i) rs x' (Some y')"
    have IH: "successively (x_rule self) (index_from g (Suc i) ?ps)"
      by (rule Cons.IH)
    show ?thesis
    proof (cases ?ps)
      case Nil
      with Inr p show ?thesis by simp
    next
      case (Cons c' ps')
      from place_Cons [OF this] have adv: "advance self (Suc i) x' (Some y') = Inr (ca_x c', ca_y c')"
        and g: "ca_group c' = g" by auto
      from advance_x [OF assms adv]
      have "x_rule self (i, CircleAttributes g n r x' y') (Suc i, c')"
        by (simp add: x_rule_def)
      with IH Cons g Inr p show ?thesis by simp
    qed
  qed
qed

lemma place_y_rule:
  "successively (y_rule self) (index_from g i (place self g n i rs x y))"
proof (induction rs arbitrary: i x y)
  case Nil
  then show ?case by simp
next
  case (Cons r rs)
  show ?case
  proof (cases "advance self i x y")
    case (Inl e)
    then show ?thesis by simp
  next
    case (Inr p)
    obtain x' y' where p: "p = (x', y')" by (cases p)
    let ?ps = "place self g n (Suc i) rs x' (Some y')"
    have IH: "successively (y_rule self) (index_from g (Suc i) ?ps)"
      by (rule Cons.IH)
    show ?thesis
    proof (cases ?ps)
      case Nil
      with Inr p show ?thesis by simp
    next
      case (Cons c' ps')
      from place_Cons [OF this] have adv: "advance self (Suc i) x' (Some y') = Inr (ca_x c', ca_y c')"
        and g: "ca_group c' = g" by auto
      from advance_y [OF adv]
      have "y_rule self (i, CircleAttributes g n r x' y') (Suc i, c')"
        by (auto simp: y_rule_def split: if_splits)
      with IH Cons g Inr p show ?thesis by simp
    qed
  qed
qed

lemma place_hd_x:
  assumes "0 < radius self" and "place self g n 0 rs x y \<noteq> []"
  shows "x < ca_x (hd (place self g n 0 rs x y))"
proof -
  from assms(2) obtain c ps where c: "place self g n 0 rs x y = c # ps"
    by (cases "place self g n 0 rs x y") auto
  from place_Cons [OF this] have "advance self 0 x y = Inr (ca_x c, ca_y c)" by auto
  from advance_x [OF assms(1) this] c show ?thesis by simp
qed

lemma place_hd_x_exact:
  assumes "place self g n 0 rs x y \<noteq> []"
  shows "ca_x (hd (place self g n 0 rs x y)) = x + group_pad self"
proof -
  from assms obtain c ps where c: "place self g n 0 rs x y = c # ps"
    by (cases "place self g n 0 rs x y") auto
  from place_Cons [OF this] have "advance self 0 x y = Inr (ca_x c, ca_y c)" by auto
  then have "ca_x c = x + group_pad self"
    by (auto simp: advance_def split: if_splits)
  with c show ?thesis by simp
qed

lemma place_hd_y:
  assumes "place self g n 0 rs x y \<noteq> []"
  shows "ca_y (hd (place self g n 0 rs x y)) = y_init self"
proof -
  from assms obtain c ps where c: "place self g n 0 rs x y = c # ps"
    by (cases "place self g n 0 rs x y") auto
  from place_Cons [OF this] have "advance self 0 x y = Inr (ca_x c, ca_y c)" by auto
  from advance_y [OF this] c show ?thesis by simp
qed

lemma styled_label:
  assumes "styled self g"
  shows "\<exists>l. make_group_label self g n h = Inr l"
  using assms
  by (auto simp: styled_def make_group_label_def split: option.splits pyval.splits)

lemma make_group_label_Inr:
  assumes "make_group_label self g n h = Inr l"
  shows "group_label l = g \<and> group_count l = n \<and>
         label_x l = sum (\<lambda>v. v) (history_x h) / real (card (history_x h)) \<and>
         label_y l = y_init self + circle_pad self * of_int (circles_per_column self) \<and>
         gridline_x l = Max (history_x h) + group_pad self \<and>
         map_of (plot_attributes self) g \<noteq> None \<and>
         Some (group_sublabel l) = map_option label (map_of (plot_attributes self) g)"
  using assms
  by (auto simp: make_group_label_def split: option.splits pyval.splits)

lemma row_loop_shape:
  assumes "n = i + length rs" and "rs \<noteq> []"
  shows "(\<exists>e. row_loop self g n i rs (x, y, h) = (map Circle (place self g n i rs x y), Inl e)) \<or>
         (\<exists>l y'. row_loop self g n i rs (x, y, h) =
             (map Circle (place self g n i rs x y) @ [Label l],
              Inr (ca_x (last (place self g n i rs x y)), Some y',
                   history_after h (place self g n i rs x y))) \<and>
           length (place self g n i rs x y) = length rs \<and>
           make_group_label self g n (history_after h (place self g n i rs x y)) = Inr l)"
  using assms
proof (induction rs arbitrary: i x y h)
  case Nil
  then show ?case by simp
next
  case (Cons r rs)
  show ?case
  proof (cases "advance self i x y")
    case (Inl e)
    then show ?thesis by simp
  next
    case (Inr p)
    obtain x' y' where p: "p = (x', y')" by (cases p)
    let ?c = "CircleAttributes g n r x' y'"
    let ?h = "add_point h x' y'"
    show ?thesis
    proof (cases "rs = []")
      case True
      with Cons.prems have last: "i + 1 = n" by simp
      have ha: "history_after h [?c] = ?h"
        by (simp add: history_after_def add_point_def)
      show ?thesis
        using Inr p True last
        by (cases "make_group_label self g n ?h") (simp_all add: ha)
    next
      case False
      with Cons.prems have notlast: "i + 1 \<noteq> n" and n: "n = Suc i + length rs" by auto
      have ha: "history_after ?h (place self g n (Suc i) rs x' (Some y')) =
                history_after h (?c # place self g n (Suc i) rs x' (Some y'))"
        using history_after_Cons [of h ?c] by simp
      from Cons.IH [OF n False, of x' "Some y'" ?h]
      show ?thesis
      proof (elim disjE exE conjE)
        fix e
        assume "row_loop self g n (Suc i) rs (x', Some y', ?h) =
                  (map Circle (place self g n (Suc i) rs x' (Some y')), Inl e)"
        then show ?thesis
          using Inr p notlast by simp
      next
        fix l y''
        assume "row_loop self g n (Suc i) rs (x', Some y', ?h) =
            (map Circle (place self g n (Suc i) rs x' (Some y')) @ [Label l],
              Inr (ca_x (last (place self g n (Suc i) rs x' (Some y'))), Some y'',
                   history_after ?h (place self g n (Suc i) rs x' (Some y'))))"
          and "length (place self g n (Suc i) rs x' (Some y')) = length rs"
          and "make_group_label self g n
                 (history_after ?h (place self g n (Suc i) rs x' (Some y'))) = Inr l"
        moreover from this(2) False have "place self g n (Suc i) rs x' (Some y') \<noteq> []"
          by auto
        ultimately show ?thesis
          using Inr p notlast by (simp add: ha)
      qed
    qed
  qed
qed

lemma row_loop_no_error:
  assumes "circles_per_column self \<noteq> 0" and "styled self g" and "n = i + length rs"
    and "int i mod circles_per_column self = 0 \<or> y \<noteq> None"
  shows "\<exists>st. snd (row_loop self g n i rs (x, y, h)) = Inr st"
  using assms(3,4)
proof (induction rs arbitrary: i x y h)
  case Nil
  then show ?case by simp
next
  case (Cons r rs)
  from advance_ok [OF assms(1) Cons.prems(2)] obtain x' y' where
    adv: "advance self i x y = Inr (x', y')" by fastforce
  let ?h = "add_point h x' y'"
  from Cons.prems have n: "n = Suc i + length rs" by simp
  from Cons.IH [OF n, of "Some y'" x' ?h] obtain st where
    st: "snd (row_loop self g n (Suc i) rs (x', Some y', ?h)) = Inr st" by auto
  from styled_label [OF assms(2)] obtain l where l: "make_group_label self g n ?h = Inr l"
    by blast
  from st obtain out where rl: "row_loop self g n (Suc i) rs (x', Some y', ?h) = (out, Inr st)"
    by (cases "row_loop self g n (Suc i) rs (x', Some y', ?h)") simp
  show ?case
    using adv rl l by (cases st) (auto simp: Let_def)
qed

lemma row_loop_ok:
  assumes "circles_per_column self \<noteq> 0" and "styled self g" and "n = i + length rs"
    and "int i mod circles_per_column self = 0 \<or> y \<noteq> None" and "rs \<noteq> []"
  shows "\<exists>l y'. row_loop self g n i rs (x, y, h) =
             (map Circle (place self g n i rs x y) @ [Label l],
              Inr (ca_x (last (place self g n i rs x y)), Some y',
                   history_after h (place self g n i rs x y))) \<and>
           length (place self g n i rs x y) = length rs \<and>
           make_group_label self g n (history_after h (place self g n i rs x y)) = Inr l"
proof -
  from row_loop_no_error [OF assms(1-4)] obtain st where
    st: "snd (row_loop self g n i rs (x, y, h)) = Inr st" by blast
  from row_loop_shape [OF assms(3,5), of self g x y h] show ?thesis
  proof (elim disjE exE)
    fix e
    assume "row_loop self g n i rs (x, y, h) = (map Circle (place self g n i rs x y), Inl e)"
    with st show ?thesis by simp
  next
    fix l y'
    assume "row_loop self g n i rs (x, y, h) =
             (map Circle (place self g n i rs x y) @ [Label l],
              Inr (ca_x (last (place self g n i rs x y)), Some y',
                   history_after h (place self g n i rs x y))) \<and>
           length (place self g n i rs x y) = length rs \<and>
           make_group_label self g n (history_after h (place self g n i rs x y)) = Inr l"
    then show ?thesis by blast
  qed
qed

section \<open>The outer loop\<close>

lemma group_loop_Cons:
  fixes self :: "('v::linorder) CirclePlotter" and g :: 'v and data :: "'v list list"
    and ties :: "'v tie_order" and cols order :: "string list" and x :: real and y :: "real option"
  assumes "data \<noteq> []"
  defines "ps \<equiv> place self g (length data) 0 (sort_values ties cols order data)
                   (if x > x_init self then x + group_pad self else x) y"
  shows "(\<exists>e. group_loop self ties cols order ((g, data) # gs) (x, y) = (map Circle ps, Inl e)) \<or>
         (\<exists>l y'. length ps = length data \<and>
            make_group_label self g (length data) (history_after (CirclePointHistory {} {}) ps) = Inr l \<and>
            group_loop self ties cols order ((g, data) # gs) (x, y) =
              (map Circle ps @ Label l # fst (group_loop self ties cols order gs (ca_x (last ps), Some y')),
               snd (group_loop self ties cols order gs (ca_x (last ps), Some y'))))"
proof -
  let ?rs = "sort_values ties cols order data"
  let ?x1 = "if x > x_init self then x + group_pad self else x"
  have n: "length data = 0 + length ?rs"
    by (simp add: length_sort_values)
  with assms(1) have ne: "?rs \<noteq> []" by auto
  from row_loop_shape [OF n ne, of self g ?x1 y "CirclePointHistory {} {}"]
  show ?thesis
  proof (elim disjE exE conjE)
    fix e
    assume "row_loop self g (length data) 0 ?rs (?x1, y, CirclePointHistory {} {}) =
              (map Circle (place self g (length data) 0 ?rs ?x1 y), Inl e)"
    then have "group_loop self ties cols order ((g, data) # gs) (x, y) = (map Circle ps, Inl e)"
      by (simp add: ps_def)
    then show ?thesis by blast
  next
    fix l y'
    assume r: "row_loop self g (length data) 0 ?rs (?x1, y, CirclePointHistory {} {}) =
        (map Circle (place self g (length data) 0 ?rs ?x1 y) @ [Label l],
         Inr (ca_x (last (place self g (length data) 0 ?rs ?x1 y)), Some y',
              history_after (CirclePointHistory {} {}) (place self g (length data) 0 ?rs ?x1 y)))"
      and len: "length (place self g (length data) 0 ?rs ?x1 y) = length ?rs"
      and lab: "make_group_label self g (length data)
                 (history_after (CirclePointHistory {} {}) (place self g (length data) 0 ?rs ?x1 y)) = Inr l"
    from r have "group_loop self ties cols order ((g, data) # gs) (x, y) =
              (map Circle ps @ Label l # fst (group_loop self ties cols order gs (ca_x (last ps), Some y')),
               snd (group_loop self ties cols order gs (ca_x (last ps), Some y')))"
      by (simp add: ps_def split: prod.splits)
    with len lab show ?thesis
      unfolding ps_def length_sort_values by blast
  qed
qed

lemma group_loop_Cons_ok:
  fixes self :: "('v::linorder) CirclePlotter" and g :: 'v and data :: "'v list list"
    and ties :: "'v tie_order" and cols order :: "string list" and x :: real and y :: "real option"
  assumes "circles_per_column self \<noteq> 0" and "styled self g" and "data \<noteq> []"
  defines "ps \<equiv> place self g (length data) 0 (sort_values ties cols order data)
                   (if x > x_init self then x + group_pad self else x) y"
  shows "\<exists>l y'. length ps = length data \<and>
            make_group_label self g (length data) (history_after (CirclePointHistory {} {}) ps) = Inr l \<and>
            group_loop self ties cols order ((g, data) # gs) (x, y) =
              (map Circle ps @ Label l # fst (group_loop self ties cols order gs (ca_x (last ps), Some y')),
               snd (group_loop self ties cols order gs (ca_x (last ps), Some y')))"
proof -
  let ?rs = "sort_values ties cols order data"
  let ?x1 = "if x > x_init self then x + group_pad self else x"
  have n: "length data = 0 + length ?rs"
    by (simp add: length_sort_values)
  with assms(3) have ne: "?rs \<noteq> []" by auto
  have z: "int 0 mod circles_per_column self = 0 \<or> y \<noteq> None" by simp
  from row_loop_ok [OF assms(1,2) n z ne, of ?x1 "CirclePointHistory {} {}"]
  obtain l y' where
    r: "row_loop self g (length data) 0 ?rs (?x1, y, CirclePointHistory {} {}) =
        (map Circle (place self g (length data) 0 ?rs ?x1 y) @ [Label l],
         Inr (ca_x (last (place self g (length data) 0 ?rs ?x1 y)), Some y',
              history_after (CirclePointHistory {} {}) (place self g (length data) 0 ?rs ?x1 y)))"
      and len: "length (place self g (length data) 0 ?rs ?x1 y) = length ?rs"
      and lab: "make_group_label self g (length data)
                 (history_after (CirclePointHistory {} {}) (place self g (length data) 0 ?rs ?x1 y)) = Inr l"
    by blast
  from r have "group_loop self ties cols order ((g, data) # gs) (x, y) =
              (map Circle ps @ Label l # fst (group_loop self ties cols order gs (ca_x (last ps), Some y')),
               snd (group_loop self ties cols order gs (ca_x (last ps), Some y')))"
    by (simp add: ps_def split: prod.splits)
  with len lab show ?thesis
    unfolding ps_def length_sort_values by blast
qed

lemma circles_group_loop_groups:
  assumes "\<forall>(g, data)\<in>set gs. data \<noteq> []"
    and "c \<in> set (circles (fst (group_loop self ties cols order gs (x, y))))"
  shows "ca_group c \<in> fst ` set gs"
  using assms
proof (induction gs arbitrary: x y)
  case Nil
  then show ?case by simp
next
  case (Cons gd gs)
  obtain g data where gd: "gd = (g, data)" by (cases gd)
  with Cons.prems(1) have ne: "data \<noteq> []" and rest: "\<forall>(g, data)\<in>set gs. data \<noteq> []" by auto
  let ?ps = "place self g (length data) 0 (sort_values ties cols order data)
                   (if x > x_init self then x + group_pad self else x) y"
  from group_loop_Cons [OF ne, of self ties cols order g gs x y]
  show ?case
  proof (elim disjE exE conjE)
    fix e
    assume "group_loop self ties cols order ((g, data) # gs) (x, y) = (map Circle ?ps, Inl e)"
    with Cons.prems(2) gd have "c \<in> set ?ps" by (simp add: circles_map_Circle)
    then show ?thesis using place_group gd by fastforce
  next
    fix l y'
    assume "group_loop self ties cols order ((g, data) # gs) (x, y) =
              (map Circle ?ps @ Label l # fst (group_loop self ties cols order gs (ca_x (last ?ps), Some y')),
               snd (group_loop self ties cols order gs (ca_x (last ?ps), Some y')))"
    with Cons.prems(2) gd
    have "c \<in> set ?ps \<or> c \<in> set (circles (fst (group_loop self ties cols order gs (ca_x (last ?ps), Some y'))))"
      by (simp add: circles_append circles_map_Circle)
    then show ?thesis
    proof
      assume "c \<in> set ?ps"
      then show ?thesis using place_group gd by fastforce
    next
      assume "c \<in> set (circles (fst (group_loop self ties cols order gs (ca_x (last ?ps), Some y'))))"
      from Cons.IH [OF rest this] show ?thesis by auto
    qed
  qed
qed

text \<open>How a property of successive placements goes from the groups to the whole sequence.\<close>

lemma group_loop_successively:
  fixes P :: "nat \<times> ('v::linorder, 'v list) CircleAttributes \<Rightarrow> nat \<times> ('v, 'v list) CircleAttributes \<Rightarrow> bool"
    and Q Q1 :: "real \<Rightarrow> ('v, 'v list) CircleAttributes \<Rightarrow> bool"
  assumes inner: "\<And>g n rs x y. successively P (index_from g 0 (place self g n 0 rs x y))"
    and first: "\<And>g n rs x y. place self g n 0 rs x y \<noteq> [] \<Longrightarrow> Q1 x (hd (place self g n 0 rs x y))"
    and mono: "\<And>x c. Q1 (if x > x_init self then x + group_pad self else x) c \<Longrightarrow> Q x c"
    and link: "\<And>p c. Q (ca_x (snd p)) c \<Longrightarrow> P p (0, c)"
    and ne: "\<forall>(g, data)\<in>set gs. data \<noteq> []"
    and dist: "distinct (map fst gs)"
  shows "successively P (indexed (circles (fst (group_loop self ties cols order gs (x, y))))) \<and>
         (circles (fst (group_loop self ties cols order gs (x, y))) \<noteq> [] \<longrightarrow>
            Q x (hd (circles (fst (group_loop self ties cols order gs (x, y))))))"
  using ne dist
proof (induction gs arbitrary: x y)
  case Nil
  then show ?case by simp
next
  case (Cons gd gs)
  obtain g data where gd: "gd = (g, data)" by (cases gd)
  with Cons.prems have ne: "data \<noteq> []" and rest: "\<forall>(g, data)\<in>set gs. data \<noteq> []"
    and g: "g \<notin> fst ` set gs" and dist: "distinct (map fst gs)" by auto
  define x1 where "x1 = (if x > x_init self then x + group_pad self else x)"
  define ps where "ps = place self g (length data) 0 (sort_values ties cols order data) x1 y"
  have same: "\<forall>c\<in>set ps. ca_group c = g"
    unfolding ps_def using place_group by fastforce
  have inner_ps: "successively P (index_from g 0 ps)"
    unfolding ps_def by (rule inner)
  then have ps_ok: "successively P (indexed ps)"
    by (simp only: indexed_same_group [OF same])
  have hd_ok: "Q x (hd ps)" if "ps \<noteq> []"
  proof -
    from that have "Q1 x1 (hd ps)" unfolding ps_def by (rule first)
    then show ?thesis unfolding x1_def by (rule mono)
  qed
  from group_loop_Cons [OF ne, of self ties cols order g gs x y]
  have step: "(\<exists>e. group_loop self ties cols order ((g, data) # gs) (x, y) = (map Circle ps, Inl e)) \<or>
         (\<exists>l y'. length ps = length data \<and>
            make_group_label self g (length data) (history_after (CirclePointHistory {} {}) ps) = Inr l \<and>
            group_loop self ties cols order ((g, data) # gs) (x, y) =
              (map Circle ps @ Label l # fst (group_loop self ties cols order gs (ca_x (last ps), Some y')),
               snd (group_loop self ties cols order gs (ca_x (last ps), Some y'))))"
    unfolding ps_def x1_def .
  then show ?case
  proof (elim disjE exE conjE)
    fix e
    assume "group_loop self ties cols order ((g, data) # gs) (x, y) = (map Circle ps, Inl e)"
    then have "circles (fst (group_loop self ties cols order (gd # gs) (x, y))) = ps"
      by (simp only: gd fst_conv circles_map_Circle)
    with ps_ok hd_ok show ?thesis by simp
  next
    fix l y'
    define rest where "rest = circles (fst (group_loop self ties cols order gs (ca_x (last ps), Some y')))"
    assume len: "length ps = length data"
      and "group_loop self ties cols order ((g, data) # gs) (x, y) =
              (map Circle ps @ Label l # fst (group_loop self ties cols order gs (ca_x (last ps), Some y')),
               snd (group_loop self ties cols order gs (ca_x (last ps), Some y')))"
    then have out: "circles (fst (group_loop self ties cols order (gd # gs) (x, y))) = ps @ rest"
      by (simp only: gd fst_conv circles_append circles_map_Circle circles.simps rest_def)
    from len ne have psne: "ps \<noteq> []" by auto
    have other: "rest = [] \<or> ca_group (hd rest) \<noteq> g"
    proof (cases "rest = []")
      case True
      then show ?thesis by simp
    next
      case False
      then have "hd rest \<in> set rest" by simp
      then have "ca_group (hd rest) \<in> fst ` set gs"
        unfolding rest_def by (rule circles_group_loop_groups [OF rest])
      from this g have "ca_group (hd rest) \<noteq> g" by (rule in_notin_neq)
      then show ?thesis by (rule disjI2)
    qed
    have ix: "indexed (ps @ rest) = index_from g 0 ps @ indexed rest"
      by (rule indexed_append [OF psne same other])
    from Cons.IH [OF rest dist, of "ca_x (last ps)" "Some y'"]
    have IH1: "successively P (indexed rest)"
      and IH2: "rest \<noteq> [] \<Longrightarrow> Q (ca_x (last ps)) (hd rest)"
      unfolding rest_def by blast+
    have join: "index_from g 0 ps = [] \<or> indexed rest = [] \<or>
                 P (last (index_from g 0 ps)) (hd (indexed rest))"
    proof (cases "rest = []")
      case True
      then show ?thesis by simp
    next
      case False
      have "Q (ca_x (snd (last (index_from g 0 ps)))) (hd rest)"
        using IH2 [OF False] by (simp only: snd_last_index_from [OF psne])
      from link [OF this] show ?thesis
        by (simp only: hd_indexed [OF False] simp_thms)
    qed
    have "successively P (index_from g 0 ps @ indexed rest)"
      unfolding successively_append_iff using inner_ps IH1 join by blast
    with out ix hd_ok psne show ?thesis by simp
  qed
qed

lemma group_loop_x_rule:
  assumes "0 < radius self"
  shows "successively (x_rule self)
           (indexed (circles (fst (group_loop self ties cols order (groupby key rws) (x, y)))))"
proof -
  have gp: "0 < group_pad self"
    using assms by (simp add: group_pad_def pad_def)
  have "successively (x_rule self)
           (indexed (circles (fst (group_loop self ties cols order (groupby key rws) (x, y))))) \<and>
        (circles (fst (group_loop self ties cols order (groupby key rws) (x, y))) \<noteq> [] \<longrightarrow>
           x < ca_x (hd (circles (fst (group_loop self ties cols order (groupby key rws) (x, y))))))"
  proof (rule group_loop_successively [where Q = "\<lambda>x c. x < ca_x c" and ?Q1.0 = "\<lambda>x c. x < ca_x c"])
    show "successively (x_rule self) (index_from g 0 (place self g n 0 rs x y))" for g n rs x y
      by (rule place_x_rule [OF assms])
    show "x < ca_x (hd (place self g n 0 rs x y))" if "place self g n 0 rs x y \<noteq> []" for g n rs x y
      using that by (rule place_hd_x [OF assms])
    show "x < ca_x c" if "(if x_init self < x then x + group_pad self else x) < ca_x c" for x c
      using that gp by (simp split: if_splits)
    show "x_rule self p (0, c)" if "ca_x (snd p) < ca_x c" for p c
      using that by (simp add: x_rule_def)
    show "\<forall>(g, data)\<in>set (groupby key rws). data \<noteq> []"
      using groupby_nonempty by fastforce
    show "distinct (map fst (groupby key rws))"
      by (rule groupby_distinct)
  qed
  then show ?thesis by blast
qed

lemma group_loop_y_rule:
  "successively (y_rule self)
     (indexed (circles (fst (group_loop self ties cols order (groupby key rws) (x, y))))) \<and>
   (circles (fst (group_loop self ties cols order (groupby key rws) (x, y))) \<noteq> [] \<longrightarrow>
      ca_y (hd (circles (fst (group_loop self ties cols order (groupby key rws) (x, y))))) = y_init self)"
proof (rule group_loop_successively
    [where Q = "\<lambda>x c. ca_y c = y_init self" and ?Q1.0 = "\<lambda>x c. ca_y c = y_init self"])
  show "successively (y_rule self) (index_from g 0 (place self g n 0 rs x y))" for g n rs x y
    by (rule place_y_rule)
  show "ca_y (hd (place self g n 0 rs x y)) = y_init self" if "place self g n 0 rs x y \<noteq> []" for g n rs x y
    using that by (rule place_hd_y)
  show "ca_y c = y_init self" if "ca_y c = y_init self" for c
    using that .
  show "y_rule self p (0, c)" if "ca_y c = y_init self" for p c
    using that by (simp add: y_rule_def)
  show "\<forall>(g, data)\<in>set (groupby key rws). data \<noteq> []"
    using groupby_nonempty by fastforce
  show "distinct (map fst (groupby key rws))"
    by (rule groupby_distinct)
qed

lemma group_loop_starts:
  "successively
     (\<lambda>p q. fst q = 0 \<longrightarrow>
        ca_x (snd q) =
          (if ca_x (snd p) > x_init self then ca_x (snd p) + group_pad self else ca_x (snd p)) +
          group_pad self)
     (indexed (circles (fst (group_loop self ties cols order (groupby key rws) (x, y))))) \<and>
   (circles (fst (group_loop self ties cols order (groupby key rws) (x, y))) \<noteq> [] \<longrightarrow>
      ca_x (hd (circles (fst (group_loop self ties cols order (groupby key rws) (x, y))))) =
        (if x > x_init self then x + group_pad self else x) + group_pad self)"
proof (rule group_loop_successively
    [where Q = "\<lambda>x c. ca_x c = (if x > x_init self then x + group_pad self else x) + group_pad self"
       and ?Q1.0 = "\<lambda>x c. ca_x c = x + group_pad self"])
  show "successively
     (\<lambda>p q. fst q = 0 \<longrightarrow>
        ca_x (snd q) =
          (if ca_x (snd p) > x_init self then ca_x (snd p) + group_pad self else ca_x (snd p)) +
          group_pad self)
     (index_from g 0 (place self g n 0 rs x y))" for g n rs x y
  proof -
    have "\<forall>c\<in>set (place self g n 0 rs x y). ca_group c = g"
      using place_group by fastforce
    then have "successively (\<lambda>p q. fst q = Suc (fst p)) (index_from g 0 (place self g n 0 rs x y))"
      by (rule index_from_counts_up)
    then show ?thesis
      by (rule successively_mono) simp
  qed
  show "ca_x (hd (place self g n 0 rs x y)) = x + group_pad self"
    if "place self g n 0 rs x y \<noteq> []" for g n rs x y
    using that by (rule place_hd_x_exact)
  show "ca_x c = (if x > x_init self then x + group_pad self else x) + group_pad self"
    if "ca_x c = (if x_init self < x then x + group_pad self else x) + group_pad self" for x c
    using that .
  show "fst (0 :: nat, c) = 0 \<longrightarrow>
        ca_x (snd (0 :: nat, c)) =
          (if ca_x (snd p) > x_init self then ca_x (snd p) + group_pad self else ca_x (snd p)) +
          group_pad self"
    if "ca_x c = (if ca_x (snd p) > x_init self then ca_x (snd p) + group_pad self else ca_x (snd p)) +
          group_pad self" for p :: "nat \<times> ('a, 'a list) CircleAttributes" and c
    using that by simp
  show "\<forall>(g, data)\<in>set (groupby key rws). data \<noteq> []"
    using groupby_nonempty by fastforce
  show "distinct (map fst (groupby key rws))"
    by (rule groupby_distinct)
qed

text \<open>A run without exception: one chunk for each group, in order, and nothing after.\<close>

lemma group_loop_complete:
  fixes self :: "('v::linorder) CirclePlotter"
  assumes cpc: "circles_per_column self \<noteq> 0"
    and ok: "\<forall>gd\<in>set gs. snd gd \<noteq> [] \<and> styled self (fst gd)"
  shows "(\<exists>st. snd (group_loop self ties cols order gs (x, y)) = Inr st) \<and>
         snd (split_items (fst (group_loop self ties cols order gs (x, y)))) = [] \<and>
         list_all2
           (\<lambda>gd ch. map ca_row (fst ch) = sort_values ties cols order (snd gd) \<and>
                    (\<forall>c\<in>set (fst ch). ca_group c = fst gd \<and> ca_count c = length (snd gd)) \<and>
                    group_label (snd ch) = fst gd \<and> group_count (snd ch) = length (snd gd))
           gs (fst (split_items (fst (group_loop self ties cols order gs (x, y)))))"
  using ok
proof (induction gs arbitrary: x y)
  case Nil
  then show ?case by simp
next
  case (Cons gd gs)
  obtain g data where gd: "gd = (g, data)" by (cases gd)
  with Cons.prems have ne: "data \<noteq> []" and st: "styled self g"
    and rest: "\<forall>gd\<in>set gs. snd gd \<noteq> [] \<and> styled self (fst gd)" by auto
  define ps where "ps = place self g (length data) 0 (sort_values ties cols order data)
                   (if x > x_init self then x + group_pad self else x) y"
  from group_loop_Cons_ok [OF cpc st ne, of ties cols order x y gs]
  obtain l y' where len: "length ps = length data"
    and lab: "make_group_label self g (length data) (history_after (CirclePointHistory {} {}) ps) = Inr l"
    and eq: "group_loop self ties cols order ((g, data) # gs) (x, y) =
              (map Circle ps @ Label l # fst (group_loop self ties cols order gs (ca_x (last ps), Some y')),
               snd (group_loop self ties cols order gs (ca_x (last ps), Some y')))"
    unfolding ps_def by blast
  have rows: "map ca_row ps = sort_values ties cols order data"
    unfolding ps_def
    by (rule place_rows_full) (use len in \<open>simp add: ps_def length_sort_values\<close>)
  have grp: "\<forall>c\<in>set ps. ca_group c = g \<and> ca_count c = length data"
    unfolding ps_def using place_group by fastforce
  from make_group_label_Inr [OF lab] have l: "group_label l = g" "group_count l = length data"
    by simp_all
  from Cons.IH [OF rest, of "ca_x (last ps)" "Some y'"] eq rows grp l gd
  show ?case
    by (simp add: split_items_chunk)
qed

text \<open>Every label yielded, also before an exception, closes the placements of its group.\<close>

lemma group_loop_chunks:
  fixes self :: "('v::linorder) CirclePlotter"
  assumes "\<forall>(g, data)\<in>set gs. data \<noteq> []"
  shows "\<forall>ch\<in>set (fst (split_items (fst (group_loop self ties cols order gs (x, y))))).
           (\<forall>c\<in>set (fst ch). ca_group c = group_label (snd ch)) \<and>
           length (fst ch) = group_count (snd ch) \<and>
           make_group_label self (group_label (snd ch)) (group_count (snd ch))
             (history_after (CirclePointHistory {} {}) (fst ch)) = Inr (snd ch)"
  using assms
proof (induction gs arbitrary: x y)
  case Nil
  then show ?case by simp
next
  case (Cons gd gs)
  obtain g data where gd: "gd = (g, data)" by (cases gd)
  with Cons.prems have ne: "data \<noteq> []" and rest: "\<forall>(g, data)\<in>set gs. data \<noteq> []" by auto
  define ps where "ps = place self g (length data) 0 (sort_values ties cols order data)
                   (if x > x_init self then x + group_pad self else x) y"
  from group_loop_Cons [OF ne, of self ties cols order g gs x y]
  have step: "(\<exists>e. group_loop self ties cols order ((g, data) # gs) (x, y) = (map Circle ps, Inl e)) \<or>
         (\<exists>l y'. length ps = length data \<and>
            make_group_label self g (length data) (history_after (CirclePointHistory {} {}) ps) = Inr l \<and>
            group_loop self ties cols order ((g, data) # gs) (x, y) =
              (map Circle ps @ Label l # fst (group_loop self ties cols order gs (ca_x (last ps), Some y')),
               snd (group_loop self ties cols order gs (ca_x (last ps), Some y'))))"
    unfolding ps_def .
  then show ?case
  proof (elim disjE exE conjE)
    fix e
    assume "group_loop self ties cols order ((g, data) # gs) (x, y) = (map Circle ps, Inl e)"
    then show ?thesis
      by (simp add: gd split_items_circles)
  next
    fix l y'
    assume len: "length ps = length data"
      and lab: "make_group_label self g (length data) (history_after (CirclePointHistory {} {}) ps) = Inr l"
      and eq: "group_loop self ties cols order ((g, data) # gs) (x, y) =
              (map Circle ps @ Label l # fst (group_loop self ties cols order gs (ca_x (last ps), Some y')),
               snd (group_loop self ties cols order gs (ca_x (last ps), Some y')))"
    have grp: "\<forall>c\<in>set ps. ca_group c = g"
      unfolding ps_def using place_group by fastforce
    from make_group_label_Inr [OF lab] have l: "group_label l = g" "group_count l = length data"
      by simp_all
    from Cons.IH [OF rest, of "ca_x (last ps)" "Some y'"] eq grp l len lab gd
    show ?thesis
      by (simp add: split_items_chunk)
  qed
qed

text \<open>
  The index is the position of a placement among the placements yielded for its group:
  the placements before each label, and those after the last label, are numbered from 0.
\<close>

lemma group_loop_indexed:
  fixes self :: "('v::linorder) CirclePlotter"
  assumes "\<forall>(g, data)\<in>set gs. data \<noteq> []" and "distinct (map fst gs)"
  shows "indexed (circles (fst (group_loop self ties cols order gs (x, y)))) =
           concat (map (\<lambda>cs. zip [0..<length cs] cs)
             (map fst (fst (split_items (fst (group_loop self ties cols order gs (x, y))))) @
              [snd (split_items (fst (group_loop self ties cols order gs (x, y))))]))"
  using assms
proof (induction gs arbitrary: x y)
  case Nil
  then show ?case by simp
next
  case (Cons gd gs)
  obtain g data where gd: "gd = (g, data)" by (cases gd)
  with Cons.prems have ne: "data \<noteq> []" and rest: "\<forall>(g, data)\<in>set gs. data \<noteq> []"
    and g: "g \<notin> fst ` set gs" and dist: "distinct (map fst gs)" by auto
  define ps where "ps = place self g (length data) 0 (sort_values ties cols order data)
                   (if x > x_init self then x + group_pad self else x) y"
  have same: "\<forall>c\<in>set ps. ca_group c = g"
    unfolding ps_def using place_group by fastforce
  have ps_ix: "index_from g 0 ps = zip [0..<length ps] ps"
    using index_from_uniform [OF same, of 0] by simp
  from group_loop_Cons [OF ne, of self ties cols order g gs x y]
  have step: "(\<exists>e. group_loop self ties cols order ((g, data) # gs) (x, y) = (map Circle ps, Inl e)) \<or>
         (\<exists>l y'. length ps = length data \<and>
            make_group_label self g (length data) (history_after (CirclePointHistory {} {}) ps) = Inr l \<and>
            group_loop self ties cols order ((g, data) # gs) (x, y) =
              (map Circle ps @ Label l # fst (group_loop self ties cols order gs (ca_x (last ps), Some y')),
               snd (group_loop self ties cols order gs (ca_x (last ps), Some y'))))"
    unfolding ps_def .
  then show ?case
  proof (elim disjE exE conjE)
    fix e
    assume "group_loop self ties cols order ((g, data) # gs) (x, y) = (map Circle ps, Inl e)"
    then have out: "fst (group_loop self ties cols order (gd # gs) (x, y)) = map Circle ps"
      by (simp only: gd fst_conv)
    have "indexed ps = zip [0..<length ps] ps"
      using indexed_same_group [OF same] ps_ix by simp
    then show ?thesis
      by (simp add: out circles_map_Circle split_items_circles)
  next
    fix l y'
    define out' where "out' = fst (group_loop self ties cols order gs (ca_x (last ps), Some y'))"
    assume len: "length ps = length data"
      and "group_loop self ties cols order ((g, data) # gs) (x, y) =
              (map Circle ps @ Label l # fst (group_loop self ties cols order gs (ca_x (last ps), Some y')),
               snd (group_loop self ties cols order gs (ca_x (last ps), Some y')))"
    then have out: "fst (group_loop self ties cols order (gd # gs) (x, y)) = map Circle ps @ Label l # out'"
      by (simp only: gd fst_conv out'_def)
    from len ne have psne: "ps \<noteq> []" by auto
    have other: "circles out' = [] \<or> ca_group (hd (circles out')) \<noteq> g"
    proof (cases "circles out' = []")
      case True
      then show ?thesis by simp
    next
      case False
      then have "hd (circles out') \<in> set (circles out')" by simp
      then have "ca_group (hd (circles out')) \<in> fst ` set gs"
        unfolding out'_def by (rule circles_group_loop_groups [OF rest])
      from this g have "ca_group (hd (circles out')) \<noteq> g" by (rule in_notin_neq)
      then show ?thesis by (rule disjI2)
    qed
    have ix: "indexed (ps @ circles out') = index_from g 0 ps @ indexed (circles out')"
      by (rule indexed_append [OF psne same other])
    have IH: "indexed (circles out') =
           concat (map (\<lambda>cs. zip [0..<length cs] cs)
             (map fst (fst (split_items out')) @ [snd (split_items out')]))"
      unfolding out'_def by (rule Cons.IH [OF rest dist])
    have "circles (map Circle ps @ Label l # out') = ps @ circles out'"
      by (simp add: circles_append circles_map_Circle)
    then show ?thesis
      by (simp add: out ix ps_ix IH split_items_chunk)
  qed
qed

lemma yielded_cases:
  "yielded self input grp order = [] \<or>
   (\<exists>ties cols rws. yielded self input grp order =
       fst (group_loop self ties cols order (groupby (\<lambda>r. cell cols r grp) rws) (x_init self, None)))"
proof (cases "validate_input_data input grp order")
  case (Inl e)
  then have "yielded self input grp order = []"
    by (simp add: yielded_def circle_generator_def circle_generator_body_def)
  then show ?thesis by simp
next
  case (Inr p)
  obtain ties cols rws where p: "p = (ties, cols, rws)" by (cases p)
  have "yielded self input grp order =
       fst (group_loop self ties cols order (groupby (\<lambda>r. cell cols r grp) rws) (x_init self, None))"
    using Inr p
    by (simp add: yielded_def circle_generator_def circle_generator_body_def
        split: sum.splits prod.splits)
  then show ?thesis by blast
qed

lemma indexed_in_groups:
  "indexed (circles (yielded self input grp order)) =
     concat (map (\<lambda>cs. zip [0..<length cs] cs)
       (map fst (fst (split_items (yielded self input grp order))) @
        [snd (split_items (yielded self input grp order))]))"
  using yielded_cases [of self input grp order]
proof (elim disjE exE)
  assume "yielded self input grp order = []"
  then show ?thesis by simp
next
  fix ties cols rws
  assume y: "yielded self input grp order =
       fst (group_loop self ties cols order (groupby (\<lambda>r. cell cols r grp) rws) (x_init self, None))"
  have "\<forall>(g, data)\<in>set (groupby (\<lambda>r. cell cols r grp) rws). data \<noteq> []"
    using groupby_nonempty by fastforce
  from group_loop_indexed [OF this groupby_distinct, of self ties cols order "x_init self" None]
  show ?thesis unfolding y .
qed

lemma body_valid:
  assumes "grp \<in> set cols" and "set order \<subseteq> set cols"
  shows "yielded self (DataFrame ties cols rws) grp order =
           fst (group_loop self ties cols order (groupby (\<lambda>r. cell cols r grp) rws) (x_init self, None))"
    and "ended_with self (DataFrame ties cols rws) grp order =
           (case snd (group_loop self ties cols order (groupby (\<lambda>r. cell cols r grp) rws) (x_init self, None)) of
              Inl e \<Rightarrow> Some e | Inr st \<Rightarrow> None)"
proof -
  have v: "validate_input_data (DataFrame ties cols rws) grp order = Inr (ties, cols, rws)"
    using assms validate_order_None_iff [of cols order order] by simp
  show "yielded self (DataFrame ties cols rws) grp order =
           fst (group_loop self ties cols order (groupby (\<lambda>r. cell cols r grp) rws) (x_init self, None))"
    unfolding yielded_def circle_generator_def drain.simps circle_generator_body_def v
    by (simp split: prod.splits sum.splits)
  show "ended_with self (DataFrame ties cols rws) grp order =
           (case snd (group_loop self ties cols order (groupby (\<lambda>r. cell cols r grp) rws) (x_init self, None)) of
              Inl e \<Rightarrow> Some e | Inr st \<Rightarrow> None)"
    unfolding ended_with_def circle_generator_def drain.simps circle_generator_body_def v
    by (simp split: prod.splits sum.splits)
qed

lemma yielded_x_rule:
  assumes "0 < radius self"
  shows "successively (x_rule self) (indexed (circles (yielded self input grp order)))"
  using yielded_cases [of self input grp order] group_loop_x_rule [OF assms]
  by (elim disjE exE) simp_all

lemma yielded_x_sorted:
  assumes "0 < radius self"
  shows "sorted (map ca_x (circles (yielded self input grp order)))"
proof -
  let ?cs = "circles (yielded self input grp order)"
  from yielded_x_rule [OF assms]
  have "successively (\<lambda>p q. ca_x (snd p) \<le> ca_x (snd q)) (indexed ?cs)"
    by (rule successively_mono) (auto simp: x_rule_def split: if_splits)
  then have "successively (\<le>) (map (\<lambda>p. ca_x (snd p)) (indexed ?cs))"
    by (simp add: successively_map)
  moreover have "map (\<lambda>p. ca_x (snd p)) (indexed ?cs) = map ca_x (map snd (indexed ?cs))"
    by (simp add: comp_def)
  then have "map (\<lambda>p. ca_x (snd p)) (indexed ?cs) = map ca_x ?cs"
    by (simp only: map_snd_indexed)
  ultimately have "successively (\<le>) (map ca_x ?cs)" by simp
  then show ?thesis
    by (simp add: successively_conv_sorted_wrt)
qed

text \<open>
  The first placement of the first group is one group pad right of \<^verbatim>\<open>x_init\<close>; the first
  placement of every later group is two group pads right of the placement before it
  (the pad of line 252 and the pad of line 265).
\<close>

lemma group_starts:
  assumes "0 < radius self"
  shows "(circles (yielded self input grp order) \<noteq> [] \<longrightarrow>
            ca_x (hd (circles (yielded self input grp order))) = x_init self + group_pad self) \<and>
         successively
           (\<lambda>p q. fst q = 0 \<longrightarrow> ca_x (snd q) = ca_x (snd p) + 2 * group_pad self)
           (indexed (circles (yielded self input grp order)))"
proof -
  let ?cs = "circles (yielded self input grp order)"
  have gp: "0 < group_pad self"
    using assms by (simp add: group_pad_def pad_def)
  have s: "successively
     (\<lambda>p q. fst q = 0 \<longrightarrow>
        ca_x (snd q) =
          (if ca_x (snd p) > x_init self then ca_x (snd p) + group_pad self else ca_x (snd p)) +
          group_pad self)
     (indexed ?cs) \<and>
     (?cs \<noteq> [] \<longrightarrow> ca_x (hd ?cs) = x_init self + group_pad self)"
    using yielded_cases [of self input grp order] group_loop_starts [of self _ _ _ _ _ "x_init self" None]
    by (elim disjE exE) simp_all
  then have hd: "?cs \<noteq> [] \<longrightarrow> ca_x (hd ?cs) = x_init self + group_pad self" ..
  have right: "x_init self < ca_x (snd p)" if p: "p \<in> set (indexed ?cs)" for p
  proof -
    from p have "snd p \<in> set (map snd (indexed ?cs))" by simp
    then have m: "snd p \<in> set ?cs" by (simp only: map_snd_indexed)
    then have ne: "?cs \<noteq> []" by auto
    then obtain c cs' where cs: "?cs = c # cs'" by (cases ?cs) auto
    from yielded_x_sorted [OF assms, of input grp order] cs
    have "\<forall>d\<in>set cs'. ca_x c \<le> ca_x d" by simp
    with m cs have "ca_x c \<le> ca_x (snd p)" by auto
    moreover from hd ne cs have "ca_x c = x_init self + group_pad self" by simp
    ultimately show ?thesis using gp by simp
  qed
  from s have "successively
     (\<lambda>p q. fst q = 0 \<longrightarrow>
        ca_x (snd q) =
          (if ca_x (snd p) > x_init self then ca_x (snd p) + group_pad self else ca_x (snd p)) +
          group_pad self)
     (indexed ?cs)" ..
  then have "successively
           (\<lambda>p q. fst q = 0 \<longrightarrow> ca_x (snd q) = ca_x (snd p) + 2 * group_pad self)
           (indexed ?cs)"
    by (rule successively_mono_mem) (use right in auto)
  with hd show ?thesis by (rule conjI)
qed

lemma yielded_complete:
  fixes self :: "('v::linorder) CirclePlotter"
  assumes "circles_per_column self \<noteq> 0" and "grp \<in> set cols" and "set order \<subseteq> set cols"
    and "\<forall>r\<in>set rws. styled self (cell cols r grp)"
  shows "ended_with self (DataFrame ties cols rws) grp order = None \<and>
         snd (split_items (yielded self (DataFrame ties cols rws) grp order)) = [] \<and>
         list_all2
           (\<lambda>g ch. map ca_row (fst ch) = sort_values ties cols order (filter (\<lambda>r. cell cols r grp = g) rws) \<and>
                   (\<forall>c\<in>set (fst ch). ca_group c = g \<and>
                       ca_count c = length (filter (\<lambda>r. cell cols r grp = g) rws)) \<and>
                   group_label (snd ch) = g \<and>
                   group_count (snd ch) = length (filter (\<lambda>r. cell cols r grp = g) rws))
           (map fst (groupby (\<lambda>r. cell cols r grp) rws))
           (fst (split_items (yielded self (DataFrame ties cols rws) grp order)))"
proof -
  let ?key = "\<lambda>r. cell cols r grp"
  let ?gs = "groupby ?key rws"
  have ok: "\<forall>gd\<in>set ?gs. snd gd \<noteq> [] \<and> styled self (fst gd)"
  proof
    fix gd assume gd: "gd \<in> set ?gs"
    obtain g data where p: "gd = (g, data)" by (cases gd)
    from gd p have "data \<noteq> []" using groupby_nonempty by fastforce
    moreover from gd p have "g \<in> ?key ` set rws"
      using groupby_keys [of ?key rws] by force
    with assms(4) have "styled self g" by auto
    ultimately show "snd gd \<noteq> [] \<and> styled self (fst gd)" using p by simp
  qed
  note c = group_loop_complete [OF assms(1) ok, of ties cols order "x_init self" None]
  from c obtain st where st: "snd (group_loop self ties cols order ?gs (x_init self, None)) = Inr st"
    by blast
  have e: "ended_with self (DataFrame ties cols rws) grp order = None"
    by (simp add: body_valid(2) [OF assms(2,3)] st)
  have y: "yielded self (DataFrame ties cols rws) grp order =
             fst (group_loop self ties cols order ?gs (x_init self, None))"
    by (rule body_valid(1) [OF assms(2,3)])
  from c have r: "snd (split_items (yielded self (DataFrame ties cols rws) grp order)) = []"
    unfolding y by blast
  from c have "list_all2
           (\<lambda>gd ch. map ca_row (fst ch) = sort_values ties cols order (snd gd) \<and>
                    (\<forall>c\<in>set (fst ch). ca_group c = fst gd \<and> ca_count c = length (snd gd)) \<and>
                    group_label (snd ch) = fst gd \<and> group_count (snd ch) = length (snd gd))
           ?gs (fst (split_items (yielded self (DataFrame ties cols rws) grp order)))"
    unfolding y by blast
  then have "list_all2
           (\<lambda>g ch. map ca_row (fst ch) = sort_values ties cols order (filter (\<lambda>r. cell cols r grp = g) rws) \<and>
                   (\<forall>c\<in>set (fst ch). ca_group c = g \<and>
                       ca_count c = length (filter (\<lambda>r. cell cols r grp = g) rws)) \<and>
                   group_label (snd ch) = g \<and>
                   group_count (snd ch) = length (filter (\<lambda>r. cell cols r grp = g) rws))
           (map fst ?gs)
           (fst (split_items (yielded self (DataFrame ties cols rws) grp order)))"
    by (simp add: groupby_def list_all2_map1 comp_def)
  with e r show ?thesis by simp
qed

section \<open>Coordinates of the placements\<close>

text \<open>
  Claim C4. For a plotter with a positive radius and any input, the x-coordinates of the
  placements never decrease along the yielded sequence. Between a placement and the next
  one, x is strictly larger when the next one starts a column (its index in its group is
  a multiple of \<^verbatim>\<open>circles_per_column\<close>, which includes the first placement of a group) and
  is unchanged otherwise. The index is the position of the placement among the placements
  of its group (lemma \<open>indexed_in_groups\<close>).
\<close>

theorem x_never_decreases:
  assumes "0 < radius self"
  shows "sorted (map ca_x (circles (yielded self input grp order))) \<and>
         successively
           (\<lambda>p q. if int (fst q) mod circles_per_column self = 0 then ca_x (snd p) < ca_x (snd q)
                  else ca_x (snd q) = ca_x (snd p))
           (indexed (circles (yielded self input grp order)))"
proof -
  from yielded_x_rule [OF assms]
  have "successively (x_rule self) (indexed (circles (yielded self input grp order)))" .
  then have "successively
           (\<lambda>p q. if int (fst q) mod circles_per_column self = 0 then ca_x (snd p) < ca_x (snd q)
                  else ca_x (snd q) = ca_x (snd p))
           (indexed (circles (yielded self input grp order)))"
    by (simp add: x_rule_def [abs_def])
  with yielded_x_sorted [OF assms] show ?thesis
    by (rule conjI)
qed

theorem x_never_decreases_witness:
  "0 < radius example_plotter \<and>
   map ca_x (circles (yielded example_plotter example_data ''g'' [''o''])) = [4 / 5, 4 / 5, 7 / 5, 3, 3] \<and>
   map fst (indexed (circles (yielded example_plotter example_data ''g'' [''o'']))) = [0, 1, 2, 0, 1] \<and>
   sorted (map ca_x (circles (yielded example_plotter example_data ''g'' [''o'']))) \<and>
   successively
     (\<lambda>p q. if int (fst q) mod circles_per_column example_plotter = 0 then ca_x (snd p) < ca_x (snd q)
            else ca_x (snd q) = ca_x (snd p))
     (indexed (circles (yielded example_plotter example_data ''g'' [''o''])))"
proof -
  have h: "0 < radius example_plotter"
    by (simp add: example_plotter_def)
  from x_never_decreases [OF h, of example_data "''g''" "[''o'']"] h show ?thesis
    by (simp add: example_yielded example_plotter_fields)
qed

text \<open>
  Claim C7. In the yielded sequence, every placement that starts a column (index in its
  group a multiple of \<^verbatim>\<open>circles_per_column\<close>) has \<^verbatim>\<open>y = y_init\<close>; every other placement
  directly follows the previous record of its own group, and its y is that record's y plus
  \<^verbatim>\<open>3 * radius\<close>. The index is the position of the placement among the placements of
  its group (lemma \<open>indexed_in_groups\<close>).
\<close>

theorem y_within_columns:
  "(\<forall>p\<in>set (indexed (circles (yielded self input grp order))).
      int (fst p) mod circles_per_column self = 0 \<longrightarrow> ca_y (snd p) = y_init self) \<and>
   successively
     (\<lambda>p q. int (fst q) mod circles_per_column self \<noteq> 0 \<longrightarrow>
            fst q = Suc (fst p) \<and> ca_group (snd q) = ca_group (snd p) \<and>
            ca_y (snd q) = ca_y (snd p) + 3 * radius self)
     (indexed (circles (yielded self input grp order)))"
proof -
  let ?cs = "circles (yielded self input grp order)"
  have y: "successively (y_rule self) (indexed ?cs) \<and> (?cs \<noteq> [] \<longrightarrow> ca_y (hd ?cs) = y_init self)"
    using yielded_cases [of self input grp order] group_loop_y_rule [of self]
    by (elim disjE exE) simp_all
  then have ys: "successively (y_rule self) (indexed ?cs)" ..
  have a: "ca_y (snd p) = y_init self"
    if p: "p \<in> set (indexed ?cs)" and m: "int (fst p) mod circles_per_column self = 0" for p
  proof -
    from p have ne: "?cs \<noteq> []" by (auto simp: indexed_Nil_iff)
    then have "indexed ?cs = hd (indexed ?cs) # tl (indexed ?cs)"
      by (simp add: indexed_Nil_iff)
    with p have "p = hd (indexed ?cs) \<or> p \<in> set (tl (indexed ?cs))"
      by (metis set_ConsD)
    then show ?thesis
    proof
      assume "p = hd (indexed ?cs)"
      with y ne show ?thesis by (simp add: hd_indexed)
    next
      assume "p \<in> set (tl (indexed ?cs))"
      with successively_tl_ex [OF ys] obtain p' where "y_rule self p' p"
        by blast
      with m show ?thesis by (simp add: y_rule_def)
    qed
  qed
  have "successively
     (\<lambda>p q. (fst q \<noteq> 0 \<longrightarrow> fst q = Suc (fst p) \<and> ca_group (snd q) = ca_group (snd p)) \<and>
            y_rule self p q) (indexed ?cs)"
    by (rule successively_conj [OF indexed_steps ys])
  then have b: "successively
     (\<lambda>p q. int (fst q) mod circles_per_column self \<noteq> 0 \<longrightarrow>
            fst q = Suc (fst p) \<and> ca_group (snd q) = ca_group (snd p) \<and>
            ca_y (snd q) = ca_y (snd p) + 3 * radius self)
     (indexed ?cs)"
    by (rule successively_mono) (auto simp: y_rule_def split: if_splits)
  show ?thesis
  proof (rule conjI)
    show "\<forall>p\<in>set (indexed ?cs).
      int (fst p) mod circles_per_column self = 0 \<longrightarrow> ca_y (snd p) = y_init self"
      by (intro ballI impI) (rule a)
    show "successively
     (\<lambda>p q. int (fst q) mod circles_per_column self \<noteq> 0 \<longrightarrow>
            fst q = Suc (fst p) \<and> ca_group (snd q) = ca_group (snd p) \<and>
            ca_y (snd q) = ca_y (snd p) + 3 * radius self)
     (indexed ?cs)"
      by (rule b)
  qed
qed

theorem y_within_columns_witness:
  "map (\<lambda>p. (fst p, ca_y (snd p))) (indexed (circles (yielded example_plotter example_data ''g'' [''o''])))
     = [(0, 1), (1, 8 / 5), (2, 1), (0, 1), (1, 8 / 5)] \<and>
   (2, CircleAttributes 7 3 [7, 1, 0] (7 / 5) 1)
     \<in> set (indexed (circles (yielded example_plotter example_data ''g'' [''o'']))) \<and>
   int (fst (2 :: nat, CircleAttributes (7 :: int) 3 [7 :: int, 1, 0] (7 / 5) 1)) mod
     circles_per_column example_plotter = 0 \<and>
   ca_y (snd (2 :: nat, CircleAttributes (7 :: int) 3 [7 :: int, 1, 0] (7 / 5) 1)) = y_init example_plotter \<and>
   successively
     (\<lambda>p q. int (fst q) mod circles_per_column example_plotter \<noteq> 0 \<longrightarrow>
            fst q = Suc (fst p) \<and> ca_group (snd q) = ca_group (snd p) \<and>
            ca_y (snd q) = ca_y (snd p) + 3 * radius example_plotter)
     (indexed (circles (yielded example_plotter example_data ''g'' [''o''])))"
proof -
  let ?p = "(2 :: nat, CircleAttributes (7 :: int) 3 [7 :: int, 1, 0] (7 / 5) 1)"
  note t = y_within_columns [of example_plotter example_data "''g''" "[''o'']"]
  have e: "map (\<lambda>p. (fst p, ca_y (snd p)))
      (indexed (circles (yielded example_plotter example_data ''g'' [''o''])))
     = [(0, 1), (1, 8 / 5), (2, 1), (0, 1), (1, 8 / 5)]"
    by (simp add: example_yielded)
  have m: "?p \<in> set (indexed (circles (yielded example_plotter example_data ''g'' [''o''])))"
    by (simp add: example_yielded)
  have c: "int (fst ?p) mod circles_per_column example_plotter = 0"
    by (simp add: example_plotter_fields)
  note y = t [THEN conjunct1, THEN bspec, OF m, THEN mp, OF c]
  note s = t [THEN conjunct2]
  show ?thesis
    by (rule conjI [OF e conjI [OF m conjI [OF c conjI [OF y s]]]])
qed

text \<open>
  Claim C3. With radius 0.2, \<open>x_init = 0\<close>, \<open>y_init = 1\<close> and ten circles per column,
  the pads are 0.4, 0.8 and 0.6, and a dataset whose three records all belong to one
  group yields exactly the placements (0.8, 1), (0.8, 1.6), (0.8, 2.2) and then one
  label with \<open>label_x = 0.8\<close> and \<open>gridline_x = 1.6\<close>. With this plotter and any dataset,
  the first placement of all is at \<open>x = 0.8\<close> (the group pad is applied before the first
  circle of the first group too), and the first placement of every later group is 1.6
  right of the placement before it (the group pad of the new group and the group pad of
  its first column).
\<close>

theorem example_three_records:
  assumes "radius self = 1 / 5" and "x_init self = 0" and "y_init self = 1"
    and "circles_per_column self = 10"
    and "map_of (plot_attributes self) g = Some (PlotAttributes c a l)"
    and "grp \<in> set cols" and "set order \<subseteq> set cols"
    and "cell cols r1 grp = g" and "cell cols r2 grp = g" and "cell cols r3 grp = g"
  shows "pad self = 2 / 5 \<and> group_pad self = 4 / 5 \<and> circle_pad self = 3 / 5 \<and>
    (\<exists>p1 p2 p3 s.
       yielded self (DataFrame ties cols [r1, r2, r3]) grp order =
         [Circle p1, Circle p2, Circle p3, Label s] \<and>
       ended_with self (DataFrame ties cols [r1, r2, r3]) grp order = None \<and>
       (ca_x p1, ca_y p1) = (4 / 5, 1) \<and>
       (ca_x p2, ca_y p2) = (4 / 5, 8 / 5) \<and>
       (ca_x p3, ca_y p3) = (4 / 5, 11 / 5) \<and>
       label_x s = 4 / 5 \<and> gridline_x s = 8 / 5) \<and>
    (\<forall>input grp' order'.
       successively (\<lambda>p q. fst q = 0 \<longrightarrow> ca_x (snd q) = ca_x (snd p) + 8 / 5)
         (indexed (circles (yielded self input grp' order'))) \<and>
       (circles (yielded self input grp' order') \<noteq> [] \<longrightarrow>
          ca_x (hd (circles (yielded self input grp' order'))) = 4 / 5))"
proof -
  have pads: "pad self = 2 / 5" "group_pad self = 4 / 5" "circle_pad self = 3 / 5"
    using assms(1) by (simp_all add: pad_def group_pad_def circle_pad_def)
  have v: "validate_input_data (DataFrame ties cols [r1, r2, r3]) grp order = Inr (ties, cols, [r1, r2, r3])"
    using assms(6,7) validate_order_None_iff [of cols order order] by simp
  have g: "groupby (\<lambda>r. cell cols r grp) [r1, r2, r3] = [(g, [r1, r2, r3])]"
    using assms(8-10) by (intro groupby_single) simp_all
  have "length (sort_values ties cols order [r1, r2, r3]) = 3"
    by (simp add: length_sort_values)
  then obtain s1 s2 s3 where s: "sort_values ties cols order [r1, r2, r3] = [s1, s2, s3]"
    by (auto simp: length_Suc_conv numeral_3_eq_3)
  have "group_loop self ties cols order [(g, [r1, r2, r3])] (x_init self, None) =
     ([Circle (CircleAttributes g 3 s1 (4 / 5) 1),
       Circle (CircleAttributes g 3 s2 (4 / 5) (8 / 5)),
       Circle (CircleAttributes g 3 s3 (4 / 5) (11 / 5)),
       Label (GroupLabel g l 3 (4 / 5) 7 (8 / 5))], Inr (4 / 5, Some (11 / 5)))"
    by (simp add: s advance_def make_group_label_def add_point_def assms(2-5) pads)
  then have run: "circle_generator_body self (DataFrame ties cols [r1, r2, r3]) grp order =
     ([Circle (CircleAttributes g 3 s1 (4 / 5) 1),
       Circle (CircleAttributes g 3 s2 (4 / 5) (8 / 5)),
       Circle (CircleAttributes g 3 s3 (4 / 5) (11 / 5)),
       Label (GroupLabel g l 3 (4 / 5) 7 (8 / 5))], None)"
    unfolding circle_generator_body_def v by (simp add: g)
  have ex: "\<exists>p1 p2 p3 s.
       yielded self (DataFrame ties cols [r1, r2, r3]) grp order =
         [Circle p1, Circle p2, Circle p3, Label s] \<and>
       ended_with self (DataFrame ties cols [r1, r2, r3]) grp order = None \<and>
       (ca_x p1, ca_y p1) = (4 / 5, 1) \<and>
       (ca_x p2, ca_y p2) = (4 / 5, 8 / 5) \<and>
       (ca_x p3, ca_y p3) = (4 / 5, 11 / 5) \<and>
       label_x s = 4 / 5 \<and> gridline_x s = 8 / 5"
    by (simp add: yielded_def ended_with_def circle_generator_def run)
  have r: "0 < radius self"
    using assms(1) by simp
  have every: "successively (\<lambda>p q. fst q = 0 \<longrightarrow> ca_x (snd q) = ca_x (snd p) + 8 / 5)
         (indexed (circles (yielded self input grp' order'))) \<and>
       (circles (yielded self input grp' order') \<noteq> [] \<longrightarrow>
          ca_x (hd (circles (yielded self input grp' order'))) = 4 / 5)" for input grp' order'
    using group_starts [OF r, of input grp' order'] by (simp add: pads assms(2))
  from pads ex every show ?thesis by simp
qed

theorem example_three_records_witness:
  "yielded (example_plotter\<lparr>circles_per_column := 10\<rparr>)
      (DataFrame reverse_order example_cols [[7, 1, 0], [7, 2, 2], [7, 3, 3]]) ''g'' [''o''] =
     [Circle (CircleAttributes 7 3 [7, 3, 3] (4 / 5) 1),
      Circle (CircleAttributes 7 3 [7, 2, 2] (4 / 5) (8 / 5)),
      Circle (CircleAttributes 7 3 [7, 1, 0] (4 / 5) (11 / 5)),
      Label (GroupLabel 7 (PyStr ''seven'') 3 (4 / 5) 7 (8 / 5))] \<and>
   map (\<lambda>p. (fst p, ca_x (snd p)))
     (indexed (circles (yielded (example_plotter\<lparr>circles_per_column := 10\<rparr>) example_data ''g'' [''o'']))) =
     [(0, 4 / 5), (1, 4 / 5), (2, 4 / 5), (0, 12 / 5), (1, 12 / 5)] \<and>
   pad (example_plotter\<lparr>circles_per_column := 10\<rparr>) = 2 / 5 \<and>
   group_pad (example_plotter\<lparr>circles_per_column := 10\<rparr>) = 4 / 5 \<and>
   circle_pad (example_plotter\<lparr>circles_per_column := 10\<rparr>) = 3 / 5 \<and>
   (\<exists>p1 p2 p3 s.
       yielded (example_plotter\<lparr>circles_per_column := 10\<rparr>)
         (DataFrame reverse_order example_cols [[7, 1, 0], [7, 2, 2], [7, 3, 3]]) ''g'' [''o''] =
         [Circle p1, Circle p2, Circle p3, Label s] \<and>
       ended_with (example_plotter\<lparr>circles_per_column := 10\<rparr>)
         (DataFrame reverse_order example_cols [[7, 1, 0], [7, 2, 2], [7, 3, 3]]) ''g'' [''o''] = None \<and>
       (ca_x p1, ca_y p1) = (4 / 5, 1) \<and>
       (ca_x p2, ca_y p2) = (4 / 5, 8 / 5) \<and>
       (ca_x p3, ca_y p3) = (4 / 5, 11 / 5) \<and>
       label_x s = 4 / 5 \<and> gridline_x s = 8 / 5) \<and>
   successively (\<lambda>p q. fst q = 0 \<longrightarrow> ca_x (snd q) = ca_x (snd p) + 8 / 5)
     (indexed (circles (yielded (example_plotter\<lparr>circles_per_column := 10\<rparr>) example_data ''g'' [''o'']))) \<and>
   ca_x (hd (circles (yielded (example_plotter\<lparr>circles_per_column := 10\<rparr>) example_data ''g'' [''o'']))) = 4 / 5"
proof -
  let ?self = "example_plotter\<lparr>circles_per_column := 10\<rparr>"
  have e1: "yielded ?self (DataFrame reverse_order example_cols [[7, 1, 0], [7, 2, 2], [7, 3, 3]]) ''g'' [''o''] =
     [Circle (CircleAttributes 7 3 [7, 3, 3] (4 / 5) 1),
      Circle (CircleAttributes 7 3 [7, 2, 2] (4 / 5) (8 / 5)),
      Circle (CircleAttributes 7 3 [7, 1, 0] (4 / 5) (11 / 5)),
      Label (GroupLabel 7 (PyStr ''seven'') 3 (4 / 5) 7 (8 / 5))]"
    by (simp add: yielded_def example_plotter_def example_cols_def circle_generator_def
      circle_generator_body_def groupby_def cell_def sort_values_def arrange_def reverse_order_def sort_key_of_def advance_def
      make_group_label_def add_point_def group_pad_def circle_pad_def pad_def Let_def)
  have e2: "yielded ?self example_data ''g'' [''o''] =
     [Circle (CircleAttributes 7 3 [7, 3, 3] (4 / 5) 1),
      Circle (CircleAttributes 7 3 [7, 2, 2] (4 / 5) (8 / 5)),
      Circle (CircleAttributes 7 3 [7, 1, 0] (4 / 5) (11 / 5)),
      Label (GroupLabel 7 (PyStr ''seven'') 3 (4 / 5) 7 (8 / 5)),
      Circle (CircleAttributes 8 2 [8, 3, 1] (12 / 5) 1),
      Circle (CircleAttributes 8 2 [8, 1, 4] (12 / 5) (8 / 5)),
      Label (GroupLabel 8 (PyStr ''eight'') 2 (12 / 5) 7 (16 / 5))]"
    by (simp add: yielded_def example_plotter_def example_data_def example_cols_def
      example_rows_def circle_generator_def
      circle_generator_body_def groupby_def cell_def sort_values_def arrange_def reverse_order_def sort_key_of_def advance_def
      make_group_label_def add_point_def group_pad_def circle_pad_def pad_def Let_def)
  have e3: "map (\<lambda>p. (fst p, ca_x (snd p))) (indexed (circles (yielded ?self example_data ''g'' [''o'']))) =
     [(0, 4 / 5), (1, 4 / 5), (2, 4 / 5), (0, 12 / 5), (1, 12 / 5)]"
    by (simp add: e2)
  have ne: "circles (yielded ?self example_data ''g'' [''o'']) \<noteq> []"
    by (simp add: e2)
  have h: "radius ?self = 1 / 5" "x_init ?self = 0" "y_init ?self = 1"
    "circles_per_column ?self = 10"
    "map_of (plot_attributes ?self) 7 = Some (PlotAttributes (PyStr ''red'') (PyFloat 1) (PyStr ''seven''))"
    "''g'' \<in> set example_cols" "set [''o''] \<subseteq> set example_cols"
    "cell example_cols [7, 1, 0] ''g'' = 7" "cell example_cols [7, 2, 2] ''g'' = 7"
    "cell example_cols [7, 3, 3] ''g'' = 7"
    by (simp_all add: example_plotter_def example_cols_def cell_def)
  note t = example_three_records [OF h]
  note pads = t [THEN conjunct1] t [THEN conjunct2, THEN conjunct1]
    t [THEN conjunct2, THEN conjunct2, THEN conjunct1]
  note ex = t [THEN conjunct2, THEN conjunct2, THEN conjunct2, THEN conjunct1]
  note every = t [THEN conjunct2, THEN conjunct2, THEN conjunct2, THEN conjunct2, THEN spec,
    THEN spec, THEN spec, of example_data "''g''" "[''o'']"]
  note first = every [THEN conjunct2, THEN mp, OF ne]
  show ?thesis
    by (rule conjI [OF e1 conjI [OF e3 conjI [OF pads(1) conjI [OF pads(2) conjI [OF pads(3)
         conjI [OF ex conjI [OF every [THEN conjunct1] first]]]]]]])
qed

section \<open>Groups and their labels\<close>

text \<open>
  Claim C5. Take a plotter whose \<^verbatim>\<open>circles_per_column\<close> is not zero and whose
  \<^verbatim>\<open>plot_attributes\<close> has a \<^verbatim>\<open>PlotAttributes\<close> entry for every group of the data, and a
  DataFrame that has the group and order columns. Then the generator ends without an
  exception, and what it yields is, for each group in order of first appearance, the
  placements of that group followed directly by the label of that group, and nothing
  else: as many placements as the group has records, all carrying the group's key, then
  one label with that key and that count. The groups have distinct keys, so no group is
  labelled twice and no placement of another group comes in between.
\<close>

theorem every_group_complete:
  fixes self :: "('v::linorder) CirclePlotter"
  assumes "circles_per_column self \<noteq> 0" and "grp \<in> set cols" and "set order \<subseteq> set cols"
    and "\<forall>r\<in>set rws. styled self (cell cols r grp)"
  shows "ended_with self (DataFrame ties cols rws) grp order = None \<and>
         yielded self (DataFrame ties cols rws) grp order =
           concat (map (\<lambda>ch. map Circle (fst ch) @ [Label (snd ch)])
                     (fst (split_items (yielded self (DataFrame ties cols rws) grp order)))) \<and>
         distinct (map fst (groupby (\<lambda>r. cell cols r grp) rws)) \<and>
         set (map fst (groupby (\<lambda>r. cell cols r grp) rws)) = (\<lambda>r. cell cols r grp) ` set rws \<and>
         list_all2
           (\<lambda>g ch. length (fst ch) = length (filter (\<lambda>r. cell cols r grp = g) rws) \<and>
                   (\<forall>c\<in>set (fst ch). ca_group c = g) \<and>
                   group_label (snd ch) = g \<and>
                   group_count (snd ch) = length (filter (\<lambda>r. cell cols r grp = g) rws))
           (map fst (groupby (\<lambda>r. cell cols r grp) rws))
           (fst (split_items (yielded self (DataFrame ties cols rws) grp order)))"
proof -
  let ?out = "yielded self (DataFrame ties cols rws) grp order"
  note c = yielded_complete [OF assms]
  from c have e: "ended_with self (DataFrame ties cols rws) grp order = None" by blast
  from c have r: "snd (split_items ?out) = []" by blast
  have cc: "?out = concat (map (\<lambda>ch. map Circle (fst ch) @ [Label (snd ch)]) (fst (split_items ?out)))"
    using split_items_concat [of ?out] r by simp
  have k: "set (map fst (groupby (\<lambda>r. cell cols r grp) rws)) = (\<lambda>r. cell cols r grp) ` set rws"
    using groupby_keys [of "\<lambda>r. cell cols r grp" rws] by simp
  from c have "list_all2
           (\<lambda>g ch. map ca_row (fst ch) = sort_values ties cols order (filter (\<lambda>r. cell cols r grp = g) rws) \<and>
                   (\<forall>c\<in>set (fst ch). ca_group c = g \<and>
                       ca_count c = length (filter (\<lambda>r. cell cols r grp = g) rws)) \<and>
                   group_label (snd ch) = g \<and>
                   group_count (snd ch) = length (filter (\<lambda>r. cell cols r grp = g) rws))
           (map fst (groupby (\<lambda>r. cell cols r grp) rws)) (fst (split_items ?out))"
    by blast
  then have l: "list_all2
           (\<lambda>g ch. length (fst ch) = length (filter (\<lambda>r. cell cols r grp = g) rws) \<and>
                   (\<forall>c\<in>set (fst ch). ca_group c = g) \<and>
                   group_label (snd ch) = g \<and>
                   group_count (snd ch) = length (filter (\<lambda>r. cell cols r grp = g) rws))
           (map fst (groupby (\<lambda>r. cell cols r grp) rws)) (fst (split_items ?out))"
  proof (rule list_all2_mono)
    fix g :: 'v and ch :: "('v, 'v list) CircleAttributes list \<times> 'v GroupLabel"
    assume a: "map ca_row (fst ch) = sort_values ties cols order (filter (\<lambda>r. cell cols r grp = g) rws) \<and>
                   (\<forall>c\<in>set (fst ch). ca_group c = g \<and>
                       ca_count c = length (filter (\<lambda>r. cell cols r grp = g) rws)) \<and>
                   group_label (snd ch) = g \<and>
                   group_count (snd ch) = length (filter (\<lambda>r. cell cols r grp = g) rws)"
    then have "length (map ca_row (fst ch)) =
               length (sort_values ties cols order (filter (\<lambda>r. cell cols r grp = g) rws))"
      by simp
    then have "length (fst ch) = length (filter (\<lambda>r. cell cols r grp = g) rws)"
      by (simp add: length_sort_values)
    with a show "length (fst ch) = length (filter (\<lambda>r. cell cols r grp = g) rws) \<and>
                   (\<forall>c\<in>set (fst ch). ca_group c = g) \<and>
                   group_label (snd ch) = g \<and>
                   group_count (snd ch) = length (filter (\<lambda>r. cell cols r grp = g) rws)"
      by simp
  qed
  show ?thesis
    using e cc k l groupby_distinct [of "\<lambda>r. cell cols r grp" rws] by (intro conjI)
qed

theorem every_group_complete_witness:
  "circles_per_column example_plotter \<noteq> 0 \<and> ''g'' \<in> set example_cols \<and>
   set [''o''] \<subseteq> set example_cols \<and>
   list_all (\<lambda>r. styled example_plotter (cell example_cols r ''g'')) example_rows \<and>
   map (\<lambda>ch. (length (fst ch), group_label (snd ch), group_count (snd ch)))
      (fst (split_items (yielded example_plotter example_data ''g'' [''o''])))
     = [(3, 7, 3), (2, 8, 2)] \<and>
   (ended_with example_plotter example_data ''g'' [''o''] = None \<and>
    yielded example_plotter example_data ''g'' [''o''] =
      concat (map (\<lambda>ch. map Circle (fst ch) @ [Label (snd ch)])
                (fst (split_items (yielded example_plotter example_data ''g'' [''o''])))) \<and>
    distinct (map fst (groupby (\<lambda>r. cell example_cols r ''g'') example_rows)) \<and>
    set (map fst (groupby (\<lambda>r. cell example_cols r ''g'') example_rows)) =
      (\<lambda>r. cell example_cols r ''g'') ` set example_rows \<and>
    list_all2
      (\<lambda>g ch. length (fst ch) = length (filter (\<lambda>r. cell example_cols r ''g'' = g) example_rows) \<and>
              (\<forall>c\<in>set (fst ch). ca_group c = g) \<and>
              group_label (snd ch) = g \<and>
              group_count (snd ch) = length (filter (\<lambda>r. cell example_cols r ''g'' = g) example_rows))
      (map fst (groupby (\<lambda>r. cell example_cols r ''g'') example_rows))
      (fst (split_items (yielded example_plotter example_data ''g'' [''o'']))))"
proof -
  have e: "map (\<lambda>ch. (length (fst ch), group_label (snd ch), group_count (snd ch)))
      (fst (split_items (yielded example_plotter example_data ''g'' [''o''])))
     = [(3, 7, 3), (2, 8, 2)]"
    by (simp add: example_chunks)
  have h: "list_all (\<lambda>r. styled example_plotter (cell example_cols r ''g'')) example_rows"
    using example_hypotheses(4) by (simp only: list_all_iff)
  note t = every_group_complete [OF example_hypotheses, where ties = reverse_order,
    folded example_data_def]
  show ?thesis
    by (rule conjI [OF example_hypotheses(1) conjI [OF example_hypotheses(2)
          conjI [OF example_hypotheses(3) conjI [OF h conjI [OF e t]]]]])
qed

text \<open>
  The run on the dataset with equal keys: the records come in descending order of their
  keys, and the two records with key 1 and the two records with key 0 are yielded in
  reverse input order. So it does not hold for every DataFrame that a group's records
  with equal ordering keys keep the order they have in the input.
\<close>

theorem rows_ties_in_input_order_counterexample:
  "circles_per_column example_plotter \<noteq> 0 \<and> ''g'' \<in> set example_cols \<and>
   set [''o''] \<subseteq> set example_cols \<and>
   list_all (\<lambda>r. styled example_plotter (cell example_cols r ''g'')) tied_rows \<and>
   map ca_row (circles (yielded example_plotter tied_data ''g'' [''o''])) =
     [[7, 1, 3], [7, 1, 2], [7, 0, 1], [7, 0, 0]] \<and>
   filter (\<lambda>r. sort_key_of example_cols [''o''] r = [1])
       (map ca_row (circles (yielded example_plotter tied_data ''g'' [''o''])))
     = [[7, 1, 3], [7, 1, 2]] \<and>
   filter (\<lambda>r. sort_key_of example_cols [''o''] r = [1]) tied_rows = [[7, 1, 2], [7, 1, 3]] \<and>
   \<not> list_all2
     (\<lambda>g ch. (\<forall>c\<in>set (fst ch). ca_group c = g) \<and>
             sorted (rev (map (sort_key_of example_cols [''o'']) (map ca_row (fst ch)))) \<and>
             (\<forall>k. filter (\<lambda>r. sort_key_of example_cols [''o''] r = k) (map ca_row (fst ch)) =
                  filter (\<lambda>r. sort_key_of example_cols [''o''] r = k)
                    (filter (\<lambda>r. cell example_cols r ''g'' = g) tied_rows)))
     (map fst (groupby (\<lambda>r. cell example_cols r ''g'') tied_rows))
     (fst (split_items (yielded example_plotter tied_data ''g'' [''o''])))"
proof -
  let ?P = "\<lambda>g ch. (\<forall>c\<in>set (fst ch). ca_group c = g) \<and>
             sorted (rev (map (sort_key_of example_cols [''o'']) (map ca_row (fst ch)))) \<and>
             (\<forall>k. filter (\<lambda>r. sort_key_of example_cols [''o''] r = k) (map ca_row (fst ch)) =
                  filter (\<lambda>r. sort_key_of example_cols [''o''] r = k)
                    (filter (\<lambda>r. cell example_cols r ''g'' = g) tied_rows))"
  let ?ch = "([CircleAttributes (7 :: int) 4 [7, 1, 3 :: int] (4 / 5) 1,
               CircleAttributes 7 4 [7, 1, 2] (4 / 5) (8 / 5),
               CircleAttributes 7 4 [7, 0, 1] (7 / 5) 1,
               CircleAttributes 7 4 [7, 0, 0] (7 / 5) (8 / 5)],
              GroupLabel (7 :: int) (PyStr ''seven'') 4 (11 / 10) (11 / 5) (11 / 5))"
  have h: "list_all (\<lambda>r. styled example_plotter (cell example_cols r ''g'')) tied_rows"
    using tied_hypotheses by (simp only: list_all_iff)
  have rows: "map ca_row (circles (yielded example_plotter tied_data ''g'' [''o''])) =
     [[7, 1, 3], [7, 1, 2], [7, 0, 1], [7, 0, 0]]"
    by (simp add: tied_yielded)
  have out: "filter (\<lambda>r. sort_key_of example_cols [''o''] r = [1])
       (map ca_row (circles (yielded example_plotter tied_data ''g'' [''o''])))
     = [[7, 1, 3], [7, 1, 2]]"
    by (simp add: tied_yielded sort_key_of_def cell_def example_cols_def)
  have inp: "filter (\<lambda>r. sort_key_of example_cols [''o''] r = [1]) tied_rows = [[7, 1, 2], [7, 1, 3]]"
    by (simp add: tied_rows_def sort_key_of_def cell_def example_cols_def)
  have gs: "map fst (groupby (\<lambda>r. cell example_cols r ''g'') tied_rows) = [7]"
    by (simp add: groupby_def tied_rows_def cell_def example_cols_def)
  have all: "filter (\<lambda>r. cell example_cols r ''g'' = 7) tied_rows = tied_rows"
    by (simp add: tied_rows_def cell_def example_cols_def)
  have n: "\<not> list_all2 ?P (map fst (groupby (\<lambda>r. cell example_cols r ''g'') tied_rows))
     (fst (split_items (yielded example_plotter tied_data ''g'' [''o''])))"
  proof
    assume "list_all2 ?P (map fst (groupby (\<lambda>r. cell example_cols r ''g'') tied_rows))
      (fst (split_items (yielded example_plotter tied_data ''g'' [''o''])))"
    then have "list_all2 ?P [7] [?ch]"
      unfolding gs tied_chunks .
    then have "?P 7 ?ch"
      by (rule list_all2_Cons [THEN iffD1, THEN conjunct1])
    then have "\<forall>k. filter (\<lambda>r. sort_key_of example_cols [''o''] r = k) (map ca_row (fst ?ch)) =
                  filter (\<lambda>r. sort_key_of example_cols [''o''] r = k) tied_rows"
      unfolding all by (elim conjE)
    then have "filter (\<lambda>r. sort_key_of example_cols [''o''] r = [1]) (map ca_row (fst ?ch)) =
                  filter (\<lambda>r. sort_key_of example_cols [''o''] r = [1]) tied_rows" ..
    then show False
      unfolding inp by (simp add: sort_key_of_def cell_def example_cols_def)
  qed
  show ?thesis
    by (rule conjI [OF tied_hypotheses(1) conjI [OF tied_hypotheses(2)
          conjI [OF tied_hypotheses(3) conjI [OF h conjI [OF rows conjI [OF out conjI [OF inp n]]]]]]])
qed

text \<open>
  Claim C2. Take a plotter whose \<^verbatim>\<open>circles_per_column\<close> is not zero and whose
  \<^verbatim>\<open>plot_attributes\<close> has a \<^verbatim>\<open>PlotAttributes\<close> entry for every group of the data, and a
  DataFrame that has the group and order columns. Then, for each group in order of first
  appearance, the records of the placements yielded before the group's label are the
  records of that group, each as often as the group has it, in descending order of their
  ordering key (the cells of the \<open>order\<close> columns, compared lexicographically). Records
  with equal ordering keys come in the order in which the sort of the DataFrame returns
  them (by rank in its tie order), which need not be the order they have in the input.
\<close>

theorem rows_descending:
  fixes self :: "('v::linorder) CirclePlotter"
  assumes "circles_per_column self \<noteq> 0" and "grp \<in> set cols" and "set order \<subseteq> set cols"
    and "\<forall>r\<in>set rws. styled self (cell cols r grp)"
  shows "list_all2
           (\<lambda>g ch. (\<forall>c\<in>set (fst ch). ca_group c = g) \<and>
                   sorted (rev (map (sort_key_of cols order) (map ca_row (fst ch)))) \<and>
                   mset (map ca_row (fst ch)) = mset (filter (\<lambda>r. cell cols r grp = g) rws) \<and>
                   (\<forall>k. filter (\<lambda>r. sort_key_of cols order r = k) (map ca_row (fst ch)) =
                        filter (\<lambda>r. sort_key_of cols order r = k)
                          (arrange ties (filter (\<lambda>r. cell cols r grp = g) rws))))
           (map fst (groupby (\<lambda>r. cell cols r grp) rws))
           (fst (split_items (yielded self (DataFrame ties cols rws) grp order)))"
proof -
  let ?out = "yielded self (DataFrame ties cols rws) grp order"
  from yielded_complete [OF assms] have "list_all2
           (\<lambda>g ch. map ca_row (fst ch) = sort_values ties cols order (filter (\<lambda>r. cell cols r grp = g) rws) \<and>
                   (\<forall>c\<in>set (fst ch). ca_group c = g \<and>
                       ca_count c = length (filter (\<lambda>r. cell cols r grp = g) rws)) \<and>
                   group_label (snd ch) = g \<and>
                   group_count (snd ch) = length (filter (\<lambda>r. cell cols r grp = g) rws))
           (map fst (groupby (\<lambda>r. cell cols r grp) rws)) (fst (split_items ?out))"
    by blast
  then show ?thesis
  proof (rule list_all2_mono)
    fix g :: 'v and ch :: "('v, 'v list) CircleAttributes list \<times> 'v GroupLabel"
    assume a: "map ca_row (fst ch) = sort_values ties cols order (filter (\<lambda>r. cell cols r grp = g) rws) \<and>
                   (\<forall>c\<in>set (fst ch). ca_group c = g \<and>
                       ca_count c = length (filter (\<lambda>r. cell cols r grp = g) rws)) \<and>
                   group_label (snd ch) = g \<and>
                   group_count (snd ch) = length (filter (\<lambda>r. cell cols r grp = g) rws)"
    then have rows: "map ca_row (fst ch) = sort_values ties cols order (filter (\<lambda>r. cell cols r grp = g) rws)"
      by simp
    from a have grp: "\<forall>c\<in>set (fst ch). ca_group c = g" by simp
    show "(\<forall>c\<in>set (fst ch). ca_group c = g) \<and>
                   sorted (rev (map (sort_key_of cols order) (map ca_row (fst ch)))) \<and>
                   mset (map ca_row (fst ch)) = mset (filter (\<lambda>r. cell cols r grp = g) rws) \<and>
                   (\<forall>k. filter (\<lambda>r. sort_key_of cols order r = k) (map ca_row (fst ch)) =
                        filter (\<lambda>r. sort_key_of cols order r = k)
                          (arrange ties (filter (\<lambda>r. cell cols r grp = g) rws)))"
      unfolding rows
      using grp sort_values_descending mset_sort_values sort_values_ties by (intro conjI allI)
  qed
qed

theorem rows_descending_witness:
  "circles_per_column example_plotter \<noteq> 0 \<and> ''g'' \<in> set example_cols \<and>
   set [''o''] \<subseteq> set example_cols \<and>
   list_all (\<lambda>r. styled example_plotter (cell example_cols r ''g'')) tied_rows \<and>
   map (\<lambda>ch. map ca_row (fst ch))
      (fst (split_items (yielded example_plotter tied_data ''g'' [''o''])))
     = [[[7, 1, 3], [7, 1, 2], [7, 0, 1], [7, 0, 0]]] \<and>
   arrange reverse_order tied_rows = [[7, 1, 3], [7, 1, 2], [7, 0, 1], [7, 0, 0]] \<and>
   list_all2
     (\<lambda>g ch. (\<forall>c\<in>set (fst ch). ca_group c = g) \<and>
             sorted (rev (map (sort_key_of example_cols [''o'']) (map ca_row (fst ch)))) \<and>
             mset (map ca_row (fst ch)) = mset (filter (\<lambda>r. cell example_cols r ''g'' = g) tied_rows) \<and>
             (\<forall>k. filter (\<lambda>r. sort_key_of example_cols [''o''] r = k) (map ca_row (fst ch)) =
                  filter (\<lambda>r. sort_key_of example_cols [''o''] r = k)
                    (arrange reverse_order (filter (\<lambda>r. cell example_cols r ''g'' = g) tied_rows))))
     (map fst (groupby (\<lambda>r. cell example_cols r ''g'') tied_rows))
     (fst (split_items (yielded example_plotter tied_data ''g'' [''o''])))"
proof -
  have h: "list_all (\<lambda>r. styled example_plotter (cell example_cols r ''g'')) tied_rows"
    using tied_hypotheses by (simp only: list_all_iff)
  have e: "map (\<lambda>ch. map ca_row (fst ch))
      (fst (split_items (yielded example_plotter tied_data ''g'' [''o''])))
     = [[[7, 1, 3], [7, 1, 2], [7, 0, 1], [7, 0, 0]]]"
    by (simp add: tied_chunks)
  have r: "arrange reverse_order tied_rows = [[7, 1, 3], [7, 1, 2], [7, 0, 1], [7, 0, 0]]"
    by (simp add: arrange_def reverse_order_def tied_rows_def)
  note t = rows_descending [OF tied_hypotheses, where ties = reverse_order, folded tied_data_def]
  show ?thesis
    by (rule conjI [OF tied_hypotheses(1) conjI [OF tied_hypotheses(2)
          conjI [OF tied_hypotheses(3) conjI [OF h conjI [OF e conjI [OF r t]]]]]])
qed

text \<open>
  Claim C6. Every label yielded closes the placements of its own group (as many as its
  \<^verbatim>\<open>group_count\<close>); its \<^verbatim>\<open>label_x\<close> is the sum of the distinct x-values of these placements
  divided by the number of distinct x-values, and its \<^verbatim>\<open>gridline_x\<close> is the largest of
  these x-values plus \<^verbatim>\<open>2 * radius + pad\<close>.
\<close>

theorem label_positions:
  "\<forall>ch\<in>set (fst (split_items (yielded self input grp order))).
      (\<forall>c\<in>set (fst ch). ca_group c = group_label (snd ch)) \<and>
      length (fst ch) = group_count (snd ch) \<and>
      label_x (snd ch) = (\<Sum>v\<in>ca_x ` set (fst ch). v) / real (card (ca_x ` set (fst ch))) \<and>
      gridline_x (snd ch) = Max (ca_x ` set (fst ch)) + (2 * radius self + pad self)"
proof
  fix ch
  assume ch: "ch \<in> set (fst (split_items (yielded self input grp order)))"
  have "(\<forall>c\<in>set (fst ch). ca_group c = group_label (snd ch)) \<and>
           length (fst ch) = group_count (snd ch) \<and>
           make_group_label self (group_label (snd ch)) (group_count (snd ch))
             (history_after (CirclePointHistory {} {}) (fst ch)) = Inr (snd ch)"
    using yielded_cases [of self input grp order]
  proof (elim disjE exE)
    assume "yielded self input grp order = []"
    with ch show ?thesis by simp
  next
    fix ties cols rws
    assume y: "yielded self input grp order =
       fst (group_loop self ties cols order (groupby (\<lambda>r. cell cols r grp) rws) (x_init self, None))"
    have "\<forall>(g, data)\<in>set (groupby (\<lambda>r. cell cols r grp) rws). data \<noteq> []"
      using groupby_nonempty by fastforce
    from group_loop_chunks [OF this, of self ties cols order "x_init self" None] ch
    show ?thesis unfolding y by (rule bspec)
  qed
  then have g: "\<forall>c\<in>set (fst ch). ca_group c = group_label (snd ch)"
    and n: "length (fst ch) = group_count (snd ch)"
    and l: "make_group_label self (group_label (snd ch)) (group_count (snd ch))
             (history_after (CirclePointHistory {} {}) (fst ch)) = Inr (snd ch)"
    by simp_all
  from make_group_label_Inr [OF l]
  have "label_x (snd ch) = (\<Sum>v\<in>ca_x ` set (fst ch). v) / real (card (ca_x ` set (fst ch)))"
    and "gridline_x (snd ch) = Max (ca_x ` set (fst ch)) + (2 * radius self + pad self)"
    by (simp_all add: history_x_after_empty group_pad_def)
  with g n show "(\<forall>c\<in>set (fst ch). ca_group c = group_label (snd ch)) \<and>
      length (fst ch) = group_count (snd ch) \<and>
      label_x (snd ch) = (\<Sum>v\<in>ca_x ` set (fst ch). v) / real (card (ca_x ` set (fst ch))) \<and>
      gridline_x (snd ch) = Max (ca_x ` set (fst ch)) + (2 * radius self + pad self)"
    by simp
qed

theorem label_positions_witness:
  "map (\<lambda>ch. (map ca_x (fst ch), label_x (snd ch), gridline_x (snd ch)))
      (fst (split_items (yielded example_plotter example_data ''g'' [''o''])))
     = [([4 / 5, 4 / 5, 7 / 5], 11 / 10, 11 / 5), ([3, 3], 3, 19 / 5)] \<and>
   hd (fst (split_items (yielded example_plotter example_data ''g'' [''o'']))) \<in>
     set (fst (split_items (yielded example_plotter example_data ''g'' [''o'']))) \<and>
   label_x (snd (hd (fst (split_items (yielded example_plotter example_data ''g'' [''o''])))))
     = (\<Sum>v\<in>ca_x ` set (fst (hd (fst (split_items (yielded example_plotter example_data ''g'' [''o''])))))
          . v) /
       real (card (ca_x ` set (fst (hd (fst (split_items (yielded example_plotter example_data ''g'' [''o''])))))))
     \<and>
   gridline_x (snd (hd (fst (split_items (yielded example_plotter example_data ''g'' [''o''])))))
     = Max (ca_x ` set (fst (hd (fst (split_items (yielded example_plotter example_data ''g'' [''o''])))))) +
       (2 * radius example_plotter + pad example_plotter)"
proof -
  let ?chs = "fst (split_items (yielded example_plotter example_data ''g'' [''o'']))"
  have e: "map (\<lambda>ch. (map ca_x (fst ch), label_x (snd ch), gridline_x (snd ch))) ?chs
     = [([4 / 5, 4 / 5, 7 / 5], 11 / 10, 11 / 5), ([3, 3], 3, 19 / 5)]"
    by (simp add: example_chunks)
  have m: "hd ?chs \<in> set ?chs"
    by (simp add: example_chunks)
  note t = label_positions [of example_plotter example_data "''g''" "[''o'']", THEN bspec, OF m]
  note l = t [THEN conjunct2, THEN conjunct2]
  show ?thesis
    by (rule conjI [OF e conjI [OF m l]])
qed

section \<open>The dictionary of plot attributes\<close>

lemma PlotAttributes_init_Inr:
  "PlotAttributes_init is_color_like c a l = Inr p \<Longrightarrow> p = PlotAttributes c a l"
  by (cases a)
    (auto simp: PlotAttributes_init_def color_setter_def alpha_range_check_def
      split: if_splits sum.splits)

lemma dict_set_absent: "k \<notin> fst ` set d \<Longrightarrow> dict_set d k v = d"
  by (induction d) (auto simp: dict_set_def)

lemma dict_set_append: "dict_set (xs @ ys) k v = dict_set xs k v @ dict_set ys k v"
  by (simp add: dict_set_def)

lemma dict_set_here:
  assumes "k \<notin> fst ` set pre" and "k \<notin> fst ` set its"
  shows "dict_set (pre @ (k, v0) # its) k v = (pre @ [(k, v)]) @ its"
proof -
  have "dict_set ((k, v0) # its) k v = (k, v) # dict_set its k v"
    by (simp add: dict_set_def)
  then show ?thesis
    using assms by (simp add: dict_set_append dict_set_absent)
qed

lemma convert_items_Cons_None:
  assumes "convert_items is_color_like ((k, v) # its) d = (None, d')"
  shows "\<exists>c a l. (v = PyList [c, a, l] \<or> v = PyTuple [c, a, l]) \<and>
           PlotAttributes_init is_color_like c a l = Inr (PlotAttributes c a l) \<and>
           convert_items is_color_like its (dict_set d k (PlotAttributes c a l)) = (None, d')"
proof (cases v)
  case (PyList xs)
  with assms obtain c a l where xs: "xs = [c, a, l]"
    by (auto split: list.splits)
  with assms PyList obtain p where p: "PlotAttributes_init is_color_like c a l = Inr p"
    and r: "convert_items is_color_like its (dict_set d k p) = (None, d')"
    by (auto split: sum.splits)
  from PlotAttributes_init_Inr [OF p] p r PyList xs show ?thesis by auto
next
  case (PyTuple xs)
  with assms obtain c a l where xs: "xs = [c, a, l]"
    by (auto split: list.splits)
  with assms PyTuple obtain p where p: "PlotAttributes_init is_color_like c a l = Inr p"
    and r: "convert_items is_color_like its (dict_set d k p) = (None, d')"
    by (auto split: sum.splits)
  from PlotAttributes_init_Inr [OF p] p r PyTuple xs show ?thesis by auto
qed (use assms in simp_all)

lemma convert_items_None:
  assumes "convert_items is_color_like its (pre @ its) = (None, d')"
    and "distinct (map fst (pre @ its))"
  shows "\<exists>its'. d' = pre @ its' \<and> list_all2 replaced its its'"
  using assms
proof (induction its arbitrary: pre)
  case Nil
  then show ?case by simp
next
  case (Cons kv its)
  obtain k v where kv: "kv = (k, v)" by (cases kv)
  from Cons.prems(1) kv convert_items_Cons_None [of is_color_like k v its "pre @ (k, v) # its" d']
  obtain c a l where v: "v = PyList [c, a, l] \<or> v = PyTuple [c, a, l]"
    and r: "convert_items is_color_like its (dict_set (pre @ (k, v) # its) k (PlotAttributes c a l)) = (None, d')"
    by auto
  from Cons.prems(2) kv have k1: "k \<notin> fst ` set pre" and k2: "k \<notin> fst ` set its"
    and d: "distinct (map fst ((pre @ [(k, PlotAttributes c a l)]) @ its))"
    by auto
  from r have "convert_items is_color_like its ((pre @ [(k, PlotAttributes c a l)]) @ its) = (None, d')"
    by (simp only: dict_set_here [OF k1 k2])
  from Cons.IH [OF this d] obtain its' where
    its': "d' = (pre @ [(k, PlotAttributes c a l)]) @ its'" and all: "list_all2 replaced its its'"
    by blast
  have "replaced (k, v) (k, PlotAttributes c a l)"
    using v by (auto simp: replaced_def)
  with its' all kv have "d' = pre @ ((k, PlotAttributes c a l) # its') \<and>
      list_all2 replaced (kv # its) ((k, PlotAttributes c a l) # its')"
    by simp
  then show ?case by blast
qed

lemma convert_items_replaced:
  assumes "convert_items is_color_like d d = (None, d')" and "distinct (map fst d)"
  shows "list_all2 replaced d d'"
  using convert_items_None [of is_color_like d "[]" d'] assms by simp

lemma convert_items_again:
  assumes "list_all2 replaced d d'" and "d \<noteq> []"
  shows "convert_items is_color_like d' d' = (Some (TypeError tuple_or_list_message), d')"
proof -
  from assms obtain kv its kv' its' where d: "d = kv # its" and d': "d' = kv' # its'"
    and r: "replaced kv kv'"
    by (cases d; cases d') auto
  obtain k v where kv': "kv' = (k, v)" by (cases kv')
  with r obtain c a l where "v = PlotAttributes c a l"
    by (auto simp: replaced_def)
  with d' kv' show ?thesis by simp
qed

lemma replaced_differs: "replaced old new \<Longrightarrow> new \<noteq> old"
  by (auto simp: replaced_def)

text \<open>
  Claim C9. When the assignment of a dictionary to \<^verbatim>\<open>plot_attributes\<close> succeeds, the
  plotter holds a reference to the very dictionary that was passed in, and that
  dictionary has been changed in place: every entry, a list or tuple of three elements
  before, is a \<^verbatim>\<open>PlotAttributes\<close> object now (under the same key, in the same position); no
  other dictionary is touched. If the dictionary has an entry at all, it is no longer
  what the caller built, and assigning the same dictionary once more raises the
  \<^verbatim>\<open>TypeError\<close> of the list-or-tuple check and changes nothing. Constructing a plotter
  with valid numbers makes this same assignment.
\<close>

theorem setter_mutates_callers_dict:
  assumes "distinct (map fst (s r))"
    and "plot_attributes_setter is_color_like (s, attr) (DictRef r) = (None, s', attr')"
  shows "attr' = Some r \<and>
         (\<forall>r'. r' \<noteq> r \<longrightarrow> s' r' = s r') \<and>
         list_all2 replaced (s r) (s' r) \<and>
         (s r \<noteq> [] \<longrightarrow>
            s' r \<noteq> s r \<and>
            plot_attributes_setter is_color_like (s', attr') (DictRef r) =
              (Some (TypeError tuple_or_list_message), s', attr')) \<and>
         (\<forall>rad x0 y0 cpc.
            0 < rad \<and> 0 \<le> x0 \<and> 0 \<le> y0 \<longrightarrow>
            CirclePlotter_init is_color_like s (DictRef r) rad x0 y0 cpc =
              (None, s',
               Some \<lparr>obj_radius = rad, obj_x_init = x0, obj_y_init = y0,
                     obj_circles_per_column = cpc, obj_plot_attributes = r\<rparr>))"
proof -
  from assms(2) obtain d where c: "convert_items is_color_like (s r) (s r) = (None, d)"
    and s': "s' = s(r := d)" and a: "attr' = Some r"
    by (auto split: prod.splits option.splits)
  from convert_items_replaced [OF c assms(1)] have rep: "list_all2 replaced (s r) d" .
  have other: "\<forall>r'. r' \<noteq> r \<longrightarrow> s' r' = s r'"
    by (simp add: s')
  have here: "s' r = d"
    by (simp add: s')
  have again: "s' r \<noteq> s r \<and>
            plot_attributes_setter is_color_like (s', attr') (DictRef r) =
              (Some (TypeError tuple_or_list_message), s', attr')" if ne: "s r \<noteq> []"
  proof
    from rep ne obtain kv its kv' its' where "s r = kv # its" "d = kv' # its'" "replaced kv kv'"
      by (cases "s r"; cases d) auto
    then show "s' r \<noteq> s r"
      using replaced_differs [of kv kv'] here by auto
    from convert_items_again [OF rep ne, of is_color_like]
    show "plot_attributes_setter is_color_like (s', attr') (DictRef r) =
              (Some (TypeError tuple_or_list_message), s', attr')"
      by (simp add: here) (simp add: s')
  qed
  have init: "CirclePlotter_init is_color_like s (DictRef r) rad x0 y0 cpc =
              (None, s',
               Some \<lparr>obj_radius = rad, obj_x_init = x0, obj_y_init = y0,
                     obj_circles_per_column = cpc, obj_plot_attributes = r\<rparr>)"
    if "0 < rad \<and> 0 \<le> x0 \<and> 0 \<le> y0" for rad x0 y0 cpc
    using that c
    by (simp add: CirclePlotter_init_def radius_setter_def x_init_setter_def y_init_setter_def s')
  show ?thesis
    using a other rep here again init by simp
qed

theorem setter_mutates_callers_dict_witness:
  "distinct (map fst (example_store 0)) \<and> example_store 0 \<noteq> [] \<and>
   (example_store(0 := [(7, PlotAttributes (PyStr ''red'') (PyFloat 1) (PyStr ''seven'')),
                        (8, PlotAttributes (PyStr ''blue'') (PyFloat (1 / 2)) (PyStr ''eight''))])) 0 \<noteq>
     example_store 0 \<and>
   plot_attributes_setter (\<lambda>v. True)
     (example_store(0 := [(7, PlotAttributes (PyStr ''red'') (PyFloat 1) (PyStr ''seven'')),
                          (8, PlotAttributes (PyStr ''blue'') (PyFloat (1 / 2)) (PyStr ''eight''))]),
      Some 0) (DictRef 0) =
     (Some (TypeError tuple_or_list_message),
      example_store(0 := [(7, PlotAttributes (PyStr ''red'') (PyFloat 1) (PyStr ''seven'')),
                          (8, PlotAttributes (PyStr ''blue'') (PyFloat (1 / 2)) (PyStr ''eight''))]),
      Some 0)"
proof -
  have d: "distinct (map fst (example_store 0))" and ne: "example_store 0 \<noteq> []"
    by (simp_all add: example_store_def)
  from setter_mutates_callers_dict [OF d example_setter] ne d show ?thesis
    by simp
qed

end
